theory Spec2Isabelle
  imports Main "HOL-Library.Word" "HOL-Library.Signed_Division"
begin

unbundle bit_operations_syntax

section \<open>Packet codec (package packets)\<close>

subsection \<open>Bytes, readers and errors\<close>

type_synonym byte = "8 word"

text \<open>
  The errors the codec can return. \<open>EOF\<close> and \<open>ErrUnexpectedEOF\<close> are the two errors of
  Go's \<open>io.ReadFull\<close> on an in-memory stream; \<open>ErrFailedRead\<close> is
  \<open>errors.New("failed to read expected data")\<close>; \<open>ErrUnsupportedPacketType t\<close> is
  \<open>fmt.Errorf("unsupported packet type 0x%x", t)\<close>; \<open>ErrUnpack\<close> stands for any error a
  variant's \<open>Unpack\<close> returns.
\<close>

datatype error = EOF | ErrUnexpectedEOF | ErrFailedRead | ErrUnsupportedPacketType byte
  | ErrUnpack string

text \<open>
  An \<open>io.Reader\<close> is modelled as the list of bytes it still holds (a \<open>bytes.Buffer\<close>, a
  file, a connection that is closed after these bytes). \<open>ReadFull n r\<close> is
  \<open>io.ReadFull(r, buf)\<close> with \<open>len(buf) = n\<close>: it fills the buffer and returns the
  rest of the stream, or fails with \<open>EOF\<close> when nothing could be read and with
  \<open>ErrUnexpectedEOF\<close> when the stream ends inside the buffer. The stream is consumed in
  either case. With \<open>n = 0\<close> nothing is read and no error is returned.
\<close>

definition ReadFull :: "nat \<Rightarrow> byte list \<Rightarrow> (error + byte list) \<times> byte list" where
  "ReadFull n r =
     (if n = 0 then (Inr [], r)
      else if r = [] then (Inl EOF, [])
      else if length r < n then (Inl ErrUnexpectedEOF, [])
      else (Inr (take n r), drop n r))"

subsection \<open>Remaining length\<close>

text \<open>
  \<open>decodeLength\<close>: \<open>rLength\<close> and \<open>multiplier\<close> are \<open>uint32\<close>; the loop runs while
  \<open>multiplier < 27\<close>, reads one byte with \<open>io.ReadFull\<close>, ors its low seven bits shifted
  by \<open>multiplier\<close> into \<open>rLength\<close>, and breaks on a byte without the continuation bit.
  After the loop the function returns \<open>int(rLength), nil\<close>. The result is paired with
  the rest of the stream.
\<close>

function decodeLength_loop ::
  "byte list \<Rightarrow> 32 word \<Rightarrow> 32 word \<Rightarrow> (error + int) \<times> byte list" where
  "decodeLength_loop r rLength multiplier =
     (if multiplier < 27 then
        (case r of
           [] \<Rightarrow> (Inl EOF, [])
         | digit # r' \<Rightarrow>
             (let rLength' = rLength OR push_bit (unat multiplier) (ucast (digit AND 127))
              in if digit AND 128 = 0 then (Inr (uint rLength'), r')
                 else decodeLength_loop r' rLength' (multiplier + 7)))
      else (Inr (uint rLength), r))"
  by pat_completeness auto
termination
  by (relation "measure (\<lambda>(r, rLength, multiplier). length r)") auto

declare decodeLength_loop.simps [simp del]

definition decodeLength :: "byte list \<Rightarrow> (error + int) \<times> byte list" where
  "decodeLength r = decodeLength_loop r 0 0"

text \<open>
  \<open>encodeLength\<close>: the loop body runs at least once; \<open>len % 128\<close> and \<open>len / 128\<close> are
  Go's truncating remainder and quotient on \<open>int\<close> (\<open>smod\<close>, \<open>sdiv\<close>), \<open>byte(\<dots>)\<close>
  keeps the low eight bits. The loop ends when the quotient is 0.
\<close>

function encodeLength_loop :: "int \<Rightarrow> byte list \<Rightarrow> byte list" where
  "encodeLength_loop len encLength =
     (let digit = (word_of_int (len smod 128) :: byte);
          len' = len sdiv 128;
          digit' = (if len' > 0 then digit OR 0x80 else digit);
          encLength' = encLength @ [digit']
      in if len' = 0 then encLength' else encodeLength_loop len' encLength')"
  by pat_completeness auto
termination
proof (relation "measure (\<lambda>(len, encLength). nat \<bar>len\<bar>)")
  show "wf (measure (\<lambda>(len, encLength). nat \<bar>len\<bar>))"
    by simp
next
  fix len :: int and encLength :: "byte list" and x xa xb xc
  assume "xa = len sdiv 128" and "xa \<noteq> 0"
  then have "\<bar>len\<bar> div 128 \<noteq> 0"
    by (auto simp: signed_divide_int_def)
  then have "\<bar>len\<bar> div 128 < \<bar>len\<bar>"
    by linarith
  moreover have "\<bar>len sdiv 128\<bar> = \<bar>len\<bar> div 128"
    by (cases "len = 0") (simp_all add: signed_divide_int_def abs_mult abs_sgn_eq)
  ultimately show "((xa, xc), (len, encLength)) \<in> measure (\<lambda>(len, encLength). nat \<bar>len\<bar>)"
    using \<open>xa = len sdiv 128\<close> by simp
qed

declare encodeLength_loop.simps [simp del]

definition encodeLength :: "int \<Rightarrow> byte list" where
  "encodeLength len = encodeLength_loop len []"

subsection \<open>Length-prefixed fields\<close>

text \<open>
  \<open>binary.BigEndian.PutUint16(b, v)\<close> writes \<open>byte(v >> 8)\<close> and \<open>byte(v)\<close>.
  \<open>encodeBytes\<close> cuts a field of more than 65535 bytes to \<open>field[0:65535]\<close>, converts
  the length of what is left to \<open>uint16\<close> and puts the two length bytes in front.
  \<open>encodeString\<close> is \<open>encodeBytes\<close> on the bytes of the string.
\<close>

definition PutUint16 :: "16 word \<Rightarrow> byte list" where
  "PutUint16 v = [ucast (drop_bit 8 v), ucast v]"

definition encodeUint16 :: "16 word \<Rightarrow> byte list" where
  "encodeUint16 num = PutUint16 num"

definition encodeBytes :: "byte list \<Rightarrow> byte list" where
  "encodeBytes field =
     (let field' = (if length field > 65535 then take 65535 field else field);
          fieldLength = PutUint16 (word_of_nat (length field'))
      in fieldLength @ field')"

definition encodeString :: "byte list \<Rightarrow> byte list" where
  "encodeString field = encodeBytes field"

subsection \<open>Fixed header and control packets\<close>

record FixedHeader =
  MessageType :: byte
  Dup :: bool
  Qos :: byte
  Retain :: bool
  RemainingLength :: int

text \<open>The zero value of the struct, \<open>FixedHeader{}\<close>.\<close>

definition FixedHeader_zero :: FixedHeader where
  "FixedHeader_zero =
     \<lparr>MessageType = 0, Dup = False, Qos = 0, Retain = False, RemainingLength = 0\<rparr>"

abbreviation (input) Connect :: byte where "Connect \<equiv> 1"
abbreviation (input) Connack :: byte where "Connack \<equiv> 2"
abbreviation (input) Publish :: byte where "Publish \<equiv> 3"
abbreviation (input) Puback :: byte where "Puback \<equiv> 4"
abbreviation (input) Pubrec :: byte where "Pubrec \<equiv> 5"
abbreviation (input) Pubrel :: byte where "Pubrel \<equiv> 6"
abbreviation (input) Pubcomp :: byte where "Pubcomp \<equiv> 7"
abbreviation (input) Subscribe :: byte where "Subscribe \<equiv> 8"
abbreviation (input) Suback :: byte where "Suback \<equiv> 9"
abbreviation (input) Unsubscribe :: byte where "Unsubscribe \<equiv> 10"
abbreviation (input) Unsuback :: byte where "Unsuback \<equiv> 11"
abbreviation (input) Pingreq :: byte where "Pingreq \<equiv> 12"
abbreviation (input) Pingresp :: byte where "Pingresp \<equiv> 13"
abbreviation (input) Disconnect :: byte where "Disconnect \<equiv> 14"

text \<open>The table \<open>PacketNames\<close>: its keys are the 14 known packet types.\<close>

definition PacketNames :: "(byte \<times> string) list" where
  "PacketNames =
     [(1, ''CONNECT''), (2, ''CONNACK''), (3, ''PUBLISH''), (4, ''PUBACK''), (5, ''PUBREC''),
      (6, ''PUBREL''), (7, ''PUBCOMP''), (8, ''SUBSCRIBE''), (9, ''SUBACK''),
      (10, ''UNSUBSCRIBE''), (11, ''UNSUBACK''), (12, ''PINGREQ''), (13, ''PINGRESP''),
      (14, ''DISCONNECT'')]"

text \<open>
  A control packet is one of 14 struct types, each with an embedded \<open>FixedHeader\<close> and
  fields of its own. The variants' own fields are declared in files that are not part of
  the sources at hand, so they are the type parameter \<open>'b\<close>, whose \<open>0\<close> is the value
  these fields have in a composite literal that names only the header (all Go zero
  values). A nil \<open>ControlPacket\<close> is \<open>None\<close>.
\<close>

datatype 'b ControlPacket =
    ConnectPacket FixedHeader 'b
  | ConnackPacket FixedHeader 'b
  | PublishPacket FixedHeader 'b
  | PubackPacket FixedHeader 'b
  | PubrecPacket FixedHeader 'b
  | PubrelPacket FixedHeader 'b
  | PubcompPacket FixedHeader 'b
  | SubscribePacket FixedHeader 'b
  | SubackPacket FixedHeader 'b
  | UnsubscribePacket FixedHeader 'b
  | UnsubackPacket FixedHeader 'b
  | PingreqPacket FixedHeader 'b
  | PingrespPacket FixedHeader 'b
  | DisconnectPacket FixedHeader 'b

fun header :: "'b ControlPacket \<Rightarrow> FixedHeader" where
  "header (ConnectPacket fh b) = fh"
| "header (ConnackPacket fh b) = fh"
| "header (PublishPacket fh b) = fh"
| "header (PubackPacket fh b) = fh"
| "header (PubrecPacket fh b) = fh"
| "header (PubrelPacket fh b) = fh"
| "header (PubcompPacket fh b) = fh"
| "header (SubscribePacket fh b) = fh"
| "header (SubackPacket fh b) = fh"
| "header (UnsubscribePacket fh b) = fh"
| "header (UnsubackPacket fh b) = fh"
| "header (PingreqPacket fh b) = fh"
| "header (PingrespPacket fh b) = fh"
| "header (DisconnectPacket fh b) = fh"

fun own_fields :: "'b ControlPacket \<Rightarrow> 'b" where
  "own_fields (ConnectPacket fh b) = b"
| "own_fields (ConnackPacket fh b) = b"
| "own_fields (PublishPacket fh b) = b"
| "own_fields (PubackPacket fh b) = b"
| "own_fields (PubrecPacket fh b) = b"
| "own_fields (PubrelPacket fh b) = b"
| "own_fields (PubcompPacket fh b) = b"
| "own_fields (SubscribePacket fh b) = b"
| "own_fields (SubackPacket fh b) = b"
| "own_fields (UnsubscribePacket fh b) = b"
| "own_fields (UnsubackPacket fh b) = b"
| "own_fields (PingreqPacket fh b) = b"
| "own_fields (PingrespPacket fh b) = b"
| "own_fields (DisconnectPacket fh b) = b"

text \<open>The packet type that each struct type stands for (its entry in the type switch).\<close>

fun variant :: "'b ControlPacket \<Rightarrow> byte" where
  "variant (ConnectPacket fh b) = Connect"
| "variant (ConnackPacket fh b) = Connack"
| "variant (PublishPacket fh b) = Publish"
| "variant (PubackPacket fh b) = Puback"
| "variant (PubrecPacket fh b) = Pubrec"
| "variant (PubrelPacket fh b) = Pubrel"
| "variant (PubcompPacket fh b) = Pubcomp"
| "variant (SubscribePacket fh b) = Subscribe"
| "variant (SubackPacket fh b) = Suback"
| "variant (UnsubscribePacket fh b) = Unsubscribe"
| "variant (UnsubackPacket fh b) = Unsuback"
| "variant (PingreqPacket fh b) = Pingreq"
| "variant (PingrespPacket fh b) = Pingresp"
| "variant (DisconnectPacket fh b) = Disconnect"

text \<open>
  \<open>NewControlPacket\<close>: a switch on the packet type, in the order of the source; the header
  literal names \<open>MessageType\<close> and, for three types, \<open>Qos: 1\<close>. After the switch the
  function returns nil.
\<close>

definition NewControlPacket :: "byte \<Rightarrow> ('b::zero) ControlPacket option" where
  "NewControlPacket packetType =
     (if packetType = Connect then
        Some (ConnectPacket (FixedHeader_zero\<lparr>MessageType := Connect\<rparr>) 0)
      else if packetType = Connack then
        Some (ConnackPacket (FixedHeader_zero\<lparr>MessageType := Connack\<rparr>) 0)
      else if packetType = Disconnect then
        Some (DisconnectPacket (FixedHeader_zero\<lparr>MessageType := Disconnect\<rparr>) 0)
      else if packetType = Publish then
        Some (PublishPacket (FixedHeader_zero\<lparr>MessageType := Publish\<rparr>) 0)
      else if packetType = Puback then
        Some (PubackPacket (FixedHeader_zero\<lparr>MessageType := Puback\<rparr>) 0)
      else if packetType = Pubrec then
        Some (PubrecPacket (FixedHeader_zero\<lparr>MessageType := Pubrec\<rparr>) 0)
      else if packetType = Pubrel then
        Some (PubrelPacket (FixedHeader_zero\<lparr>MessageType := Pubrel, Qos := 1\<rparr>) 0)
      else if packetType = Pubcomp then
        Some (PubcompPacket (FixedHeader_zero\<lparr>MessageType := Pubcomp\<rparr>) 0)
      else if packetType = Subscribe then
        Some (SubscribePacket (FixedHeader_zero\<lparr>MessageType := Subscribe, Qos := 1\<rparr>) 0)
      else if packetType = Suback then
        Some (SubackPacket (FixedHeader_zero\<lparr>MessageType := Suback\<rparr>) 0)
      else if packetType = Unsubscribe then
        Some (UnsubscribePacket (FixedHeader_zero\<lparr>MessageType := Unsubscribe, Qos := 1\<rparr>) 0)
      else if packetType = Unsuback then
        Some (UnsubackPacket (FixedHeader_zero\<lparr>MessageType := Unsuback\<rparr>) 0)
      else if packetType = Pingreq then
        Some (PingreqPacket (FixedHeader_zero\<lparr>MessageType := Pingreq\<rparr>) 0)
      else if packetType = Pingresp then
        Some (PingrespPacket (FixedHeader_zero\<lparr>MessageType := Pingresp\<rparr>) 0)
      else None)"

text \<open>
  \<open>NewControlPacketWithHeader\<close>: the same switch on \<open>fh.MessageType\<close>; the packet keeps
  the header it is given; after the switch the function returns nil and the error
  "unsupported packet type".
\<close>

definition NewControlPacketWithHeader :: "FixedHeader \<Rightarrow> error + ('b::zero) ControlPacket" where
  "NewControlPacketWithHeader fh =
     (if MessageType fh = Connect then Inr (ConnectPacket fh 0)
      else if MessageType fh = Connack then Inr (ConnackPacket fh 0)
      else if MessageType fh = Disconnect then Inr (DisconnectPacket fh 0)
      else if MessageType fh = Publish then Inr (PublishPacket fh 0)
      else if MessageType fh = Puback then Inr (PubackPacket fh 0)
      else if MessageType fh = Pubrec then Inr (PubrecPacket fh 0)
      else if MessageType fh = Pubrel then Inr (PubrelPacket fh 0)
      else if MessageType fh = Pubcomp then Inr (PubcompPacket fh 0)
      else if MessageType fh = Subscribe then Inr (SubscribePacket fh 0)
      else if MessageType fh = Suback then Inr (SubackPacket fh 0)
      else if MessageType fh = Unsubscribe then Inr (UnsubscribePacket fh 0)
      else if MessageType fh = Unsuback then Inr (UnsubackPacket fh 0)
      else if MessageType fh = Pingreq then Inr (PingreqPacket fh 0)
      else if MessageType fh = Pingresp then Inr (PingrespPacket fh 0)
      else Inl (ErrUnsupportedPacketType (MessageType fh)))"

text \<open>
  \<open>fh.unpack(typeAndFlags, r)\<close> fills the header in place from the first byte and reads the
  remaining length; it returns the error of \<open>decodeLength\<close>, whose length is 0 then.
\<close>

definition FixedHeader_unpack ::
  "FixedHeader \<Rightarrow> byte \<Rightarrow> byte list \<Rightarrow> (FixedHeader \<times> error option) \<times> byte list" where
  "FixedHeader_unpack fh typeAndFlags r =
     (let fh' = fh\<lparr>MessageType := drop_bit 4 typeAndFlags,
                   Dup := (drop_bit 3 typeAndFlags AND 1 > 0),
                   Qos := drop_bit 1 typeAndFlags AND 3,
                   Retain := (typeAndFlags AND 1 > 0)\<rparr>
      in case decodeLength r of
           (Inl err, r') \<Rightarrow> ((fh'\<lparr>RemainingLength := 0\<rparr>, Some err), r')
         | (Inr n, r') \<Rightarrow> ((fh'\<lparr>RemainingLength := n\<rparr>, None), r'))"

text \<open>
  \<open>ReadPacket\<close>. The variants' \<open>Unpack\<close> methods are in files that are not part of the
  sources at hand; \<open>Unpack\<close> is a parameter: it takes the packet and the body bytes and
  returns the packet as it has filled it together with its error, if any. The result is the
  pair of Go return values (a nil packet and a nil error are \<open>None\<close>) and the rest of the
  stream.
\<close>

definition ReadPacket ::
  "(('b::zero) ControlPacket \<Rightarrow> byte list \<Rightarrow> 'b ControlPacket \<times> error option) \<Rightarrow> byte list \<Rightarrow>
   ('b ControlPacket option \<times> error option) \<times> byte list" where
  "ReadPacket Unpack r =
     (case ReadFull 1 r of
        (Inl err, r1) \<Rightarrow> ((None, Some err), r1)
      | (Inr b, r1) \<Rightarrow>
          (case FixedHeader_unpack FixedHeader_zero (hd b) r1 of
             ((fh, Some err), r2) \<Rightarrow> ((None, Some err), r2)
           | ((fh, None), r2) \<Rightarrow>
               (case NewControlPacketWithHeader fh of
                  Inl err \<Rightarrow> ((None, Some err), r2)
                | Inr cp \<Rightarrow>
                    (case ReadFull (nat (RemainingLength fh)) r2 of
                       (Inl err, r3) \<Rightarrow> ((None, Some err), r3)
                     | (Inr packetBytes, r3) \<Rightarrow>
                         if int (length packetBytes) \<noteq> RemainingLength fh
                         then ((None, Some ErrFailedRead), r3)
                         else (case Unpack cp packetBytes of
                                 (cp', err) \<Rightarrow> ((Some cp', err), r3))))))"

text \<open>
  \<open>decodeByte\<close> reads one byte with \<open>Read\<close>; on an exhausted buffer \<open>Read\<close> returns
  \<open>io.EOF\<close> and \<open>decodeByte\<close> returns \<open>0, err\<close>.
\<close>

definition decodeByte :: "byte list \<Rightarrow> (error + byte) \<times> byte list" where
  "decodeByte b = (case b of [] \<Rightarrow> (Inl EOF, []) | num # b' \<Rightarrow> (Inr num, b'))"

text \<open>A packet type is known when it is one of the 14 keys of \<open>PacketNames\<close>.\<close>

definition known :: "byte \<Rightarrow> bool" where
  "known t = (t \<in> fst ` set PacketNames)"

section \<open>Message stores (package mqtt)\<close>

subsection \<open>Iterating over a Go map\<close>

text \<open>
  A Go map is a partial function from keys to values. \<open>for k, v := range m\<close> visits every
  entry once, in an order that the runtime chooses and the language leaves open. The
  order of a particular run is a parameter: \<open>range_map m order\<close> is the sequence of
  entries visited when the keys come up in the order \<open>order\<close>, and
  \<open>iteration_order m order\<close> says that \<open>order\<close> is an order the runtime can choose, that
  is, it lists every key of \<open>m\<close> exactly once.
\<close>

definition range_map :: "('k \<rightharpoonup> 'v) \<Rightarrow> 'k list \<Rightarrow> ('k \<times> 'v) list" where
  "range_map m order = List.map_filter (\<lambda>k. map_option (Pair k) (m k)) order"

definition iteration_order :: "('k \<rightharpoonup> 'v) \<Rightarrow> 'k list \<Rightarrow> bool" where
  "iteration_order m order = (distinct order \<and> set order = dom m)"

subsection \<open>MemoryStore\<close>

text \<open>
  The packet type is the parameter \<open>'p\<close>; a \<open>ControlPacket\<close> interface value may be nil,
  which is \<open>None\<close>. The calls of the logger do not touch the store and are left out; the
  lock is held for the whole of every method, so a method is one step on the store.
  (The fields of the ordered store below are \<open>omessages\<close> and \<open>oopened\<close>, since two
  records cannot share field names.)

  \<open>Get\<close> and \<open>Del\<close> call \<open>mIDFromKey(key)\<close> once the store is known to be open and
  before they look the key up. That function is declared in a file that is not among the
  sources, so it is a parameter of both methods: \<open>Some mid\<close> where it returns the message
  identifier, \<open>None\<close> where it panics. The identifier is only logged; a panic ends the
  method before the map is touched, which is the outcome \<open>Panics\<close>.
\<close>

datatype 'a outcome = Panics | Returns 'a

record 'p MemoryStore =
  messages :: "string \<rightharpoonup> 'p option"
  opened :: bool

definition NewMemoryStore :: "'p MemoryStore" where
  "NewMemoryStore = \<lparr>messages = Map.empty, opened = False\<rparr>"

definition MemoryStore_Open :: "'p MemoryStore \<Rightarrow> 'p MemoryStore" where
  "MemoryStore_Open store = store\<lparr>opened := True\<rparr>"

definition MemoryStore_Put :: "'p MemoryStore \<Rightarrow> string \<Rightarrow> 'p option \<Rightarrow> 'p MemoryStore" where
  "MemoryStore_Put store key message =
     (if \<not> opened store then store
      else store\<lparr>messages := (messages store)(key \<mapsto> message)\<rparr>)"

text \<open>\<open>store.messages[key]\<close> is nil for a key that is not in the map.\<close>

definition MemoryStore_Get ::
  "(string \<Rightarrow> 16 word option) \<Rightarrow> 'p MemoryStore \<Rightarrow> string \<Rightarrow> 'p option outcome" where
  "MemoryStore_Get mIDFromKey store key =
     (if \<not> opened store then Returns None
      else (case mIDFromKey key of
              None \<Rightarrow> Panics
            | Some mid \<Rightarrow>
                Returns (case messages store key of None \<Rightarrow> None | Some m \<Rightarrow> m)))"

definition MemoryStore_All :: "'p MemoryStore \<Rightarrow> string list \<Rightarrow> string list" where
  "MemoryStore_All store order =
     (if \<not> opened store then []
      else foldl (\<lambda>keys (k, v). keys @ [k]) [] (range_map (messages store) order))"

definition MemoryStore_Del ::
  "(string \<Rightarrow> 16 word option) \<Rightarrow> 'p MemoryStore \<Rightarrow> string \<Rightarrow> 'p MemoryStore outcome" where
  "MemoryStore_Del mIDFromKey store key =
     (if \<not> opened store then Returns store
      else (case mIDFromKey key of
              None \<Rightarrow> Panics
            | Some mid \<Rightarrow>
                (let m = (case messages store key of None \<Rightarrow> None | Some m \<Rightarrow> m)
                 in if m = None then Returns store
                    else Returns (store\<lparr>messages := (messages store)(key := None)\<rparr>))))"

definition MemoryStore_Close :: "'p MemoryStore \<Rightarrow> 'p MemoryStore" where
  "MemoryStore_Close store = (if \<not> opened store then store else store\<lparr>opened := False\<rparr>)"

text \<open>
  \<open>Reset\<close>: the test \<open>if !store.opened\<close> only logs; the assignment of a fresh map follows
  it in either case.
\<close>

definition MemoryStore_Reset :: "'p MemoryStore \<Rightarrow> 'p MemoryStore" where
  "MemoryStore_Reset store = store\<lparr>messages := Map.empty\<rparr>"

subsection \<open>OrderedMemoryStore\<close>

text \<open>
  A \<open>time.Time\<close> is a point on the clock, an integer number of nanoseconds;
  \<open>a.Before(b)\<close> is \<open>a < b\<close>. \<open>time.Now()\<close> is an input of \<open>Put\<close>.
\<close>

type_synonym Time = int

record 'p storedMessage =
  ts :: Time
  msg :: "'p option"

record 'p OrderedMemoryStore =
  omessages :: "string \<rightharpoonup> 'p storedMessage"
  oopened :: bool

definition NewOrderedMemoryStore :: "'p OrderedMemoryStore" where
  "NewOrderedMemoryStore = \<lparr>omessages = Map.empty, oopened = False\<rparr>"

definition OrderedMemoryStore_Open :: "'p OrderedMemoryStore \<Rightarrow> 'p OrderedMemoryStore" where
  "OrderedMemoryStore_Open store = store\<lparr>oopened := True\<rparr>"

definition OrderedMemoryStore_Put ::
  "'p OrderedMemoryStore \<Rightarrow> string \<Rightarrow> 'p option \<Rightarrow> Time \<Rightarrow> 'p OrderedMemoryStore" where
  "OrderedMemoryStore_Put store key message now =
     (if \<not> oopened store then store
      else store\<lparr>omessages := (omessages store)(key \<mapsto> \<lparr>ts = now, msg = message\<rparr>)\<rparr>)"

definition OrderedMemoryStore_Get ::
  "(string \<Rightarrow> 16 word option) \<Rightarrow> 'p OrderedMemoryStore \<Rightarrow> string \<Rightarrow> 'p option outcome" where
  "OrderedMemoryStore_Get mIDFromKey store key =
     (if \<not> oopened store then Returns None
      else (case mIDFromKey key of
              None \<Rightarrow> Panics
            | Some mid \<Rightarrow>
                Returns (case omessages store key of None \<Rightarrow> None | Some m \<Rightarrow> msg m)))"

text \<open>
  \<open>sort.Slice(tsKeys, less)\<close> is the library's sort. On a slice of fewer than 12 elements
  it is the insertion sort below: for \<open>i = 1, 2, \<dots>\<close> the element \<open>i\<close> is swapped towards
  the front while it is \<open>less\<close> than its left neighbour. \<open>sift lessf x rp\<close> is that inner
  loop, on the already sorted part held in reverse (nearest neighbour first). On longer
  slices the library uses another in-place comparison sort, which also returns a sorted
  rearrangement of the slice; only the order among elements with equal times can differ.
\<close>

fun sift :: "('a \<Rightarrow> 'a \<Rightarrow> bool) \<Rightarrow> 'a \<Rightarrow> 'a list \<Rightarrow> 'a list" where
  "sift lessf x [] = [x]"
| "sift lessf x (y # rp) = (if lessf x y then y # sift lessf x rp else x # y # rp)"

definition sort_Slice :: "('a \<Rightarrow> 'a \<Rightarrow> bool) \<Rightarrow> 'a list \<Rightarrow> 'a list" where
  "sort_Slice lessf xs = rev (foldl (\<lambda>rp x. sift lessf x rp) [] xs)"

definition OrderedMemoryStore_All :: "'p OrderedMemoryStore \<Rightarrow> string list \<Rightarrow> string list" where
  "OrderedMemoryStore_All store order =
     (if \<not> oopened store then []
      else (let tsKeys = foldl (\<lambda>tsKeys (k, v). tsKeys @ [(ts v, k)]) []
                           (range_map (omessages store) order);
                tsKeys' = sort_Slice (\<lambda>a b. fst a < fst b) tsKeys
            in map snd tsKeys'))"

definition OrderedMemoryStore_Del ::
  "(string \<Rightarrow> 16 word option) \<Rightarrow> 'p OrderedMemoryStore \<Rightarrow> string \<Rightarrow>
   'p OrderedMemoryStore outcome" where
  "OrderedMemoryStore_Del mIDFromKey store key =
     (if \<not> oopened store then Returns store
      else (case mIDFromKey key of
              None \<Rightarrow> Panics
            | Some mid \<Rightarrow>
                (case omessages store key of
                   None \<Rightarrow> Returns store
                 | Some m \<Rightarrow> Returns (store\<lparr>omessages := (omessages store)(key := None)\<rparr>))))"

definition OrderedMemoryStore_Close :: "'p OrderedMemoryStore \<Rightarrow> 'p OrderedMemoryStore" where
  "OrderedMemoryStore_Close store =
     (if \<not> oopened store then store else store\<lparr>oopened := False\<rparr>)"

definition OrderedMemoryStore_Reset :: "'p OrderedMemoryStore \<Rightarrow> 'p OrderedMemoryStore" where
  "OrderedMemoryStore_Reset store = store\<lparr>omessages := Map.empty\<rparr>"

text \<open>The time recorded against a stored key.\<close>

definition recorded :: "'p OrderedMemoryStore \<Rightarrow> string \<Rightarrow> Time option" where
  "recorded store key = map_option ts (omessages store key)"

text \<open>
  Modelled from the spec: a key is the direction prefix (\<open>i.\<close> or \<open>o.\<close>) followed by the
  message identifier, so on the key \<open>o.1\<close> the function \<open>mIDFromKey\<close>, which is not among
  the sources, returns the identifier 1. \<open>mIDFromKey_o1\<close> is a \<open>mIDFromKey\<close> of which only
  that is known.
\<close>

definition mIDFromKey_o1 :: "string \<Rightarrow> 16 word option" where
  "mIDFromKey_o1 key = (if key = ''o.1'' then Some 1 else None)"

section \<open>Topic router (package mqtt)\<close>

text \<open>
  Modelled from the spec: the router's matching code (the file that defines
  \<open>routeIncludesTopic\<close> and the \<open>match\<close> method of a route) is not among the sources;
  only its tests are. The definitions below follow the words of the specification: both
  filter and topic are split on \<open>/\<close> and compared level by level; \<open>+\<close> matches exactly
  one level; \<open>#\<close> matches all remaining levels, zero included, and ends the comparison
  with success; otherwise the level counts must be equal; a filter of the form
  \<open>$share/<group>/<rest>\<close> is matched as \<open><rest>\<close>; and a topic beginning with \<open>$\<close> is
  never matched by a filter whose first character (after the shared prefix is removed) is
  a wildcard. The test tables of the sources are proved of these definitions below.
\<close>

text \<open>
  Modelled from the spec: splitting on \<open>/\<close>, as \<open>strings.Split\<close> does: the empty string
  has one empty level, and a leading or trailing \<open>/\<close> gives an empty level.
\<close>

fun split_levels :: "string \<Rightarrow> string list" where
  "split_levels [] = [[]]"
| "split_levels (c # cs) =
     (if c = CHR ''/'' then [] # split_levels cs
      else (case split_levels cs of [] \<Rightarrow> [[c]] | l # ls \<Rightarrow> (c # l) # ls))"

text \<open>
  Modelled from the spec: a filter \<open>$share/<group>/<rest>\<close> is matched using \<open><rest>\<close>;
  the first two levels are dropped when the first is \<open>$share\<close> and a rest follows.
\<close>

definition routeSplit :: "string \<Rightarrow> string list" where
  "routeSplit route =
     (case split_levels route of
        s # g # r # rest \<Rightarrow> if s = ''$share'' then r # rest else s # g # r # rest
      | levels \<Rightarrow> levels)"

text \<open>
  Modelled from the spec: the level-by-level comparison. \<open>#\<close> ends it with success, also
  when no topic level is left; \<open>+\<close> takes one topic level; any other filter level must
  equal the topic level; both must run out together.
\<close>

fun match_levels :: "string list \<Rightarrow> string list \<Rightarrow> bool" where
  "match_levels [] [] = True"
| "match_levels [] (t # topic) = False"
| "match_levels (r # route) [] = (r = ''#'')"
| "match_levels (r # route) (t # topic) =
     (if r = ''#'' then True
      else if r = ''+'' \<or> r = t then match_levels route topic
      else False)"

text \<open>
  Modelled from the spec: the first character of the filter (without its shared prefix) is
  \<open>+\<close> or \<open>#\<close>; the first character of the topic is \<open>$\<close>.
\<close>

definition starts_with_wildcard :: "string list \<Rightarrow> bool" where
  "starts_with_wildcard levels =
     (case levels of (c # l) # ls \<Rightarrow> c = CHR ''+'' \<or> c = CHR ''#'' | _ \<Rightarrow> False)"

definition starts_with_dollar :: "string \<Rightarrow> bool" where
  "starts_with_dollar topic = (case topic of c # cs \<Rightarrow> c = CHR ''$'' | [] \<Rightarrow> False)"

text \<open>
  Modelled from the spec: the match of a filter against a topic. A topic beginning with
  \<open>$\<close> is excluded for a filter that starts with a wildcard; otherwise the levels decide.
\<close>

definition routeIncludesTopic :: "string \<Rightarrow> string \<Rightarrow> bool" where
  "routeIncludesTopic route topic =
     (if starts_with_dollar topic \<and> starts_with_wildcard (routeSplit route) then False
      else match_levels (routeSplit route) (split_levels topic))"

section \<open>Keepalive monitor (package mqtt)\<close>

text \<open>
  \<open>keepalive\<close> is a loop around a \<open>select\<close> on the stop channel and the ticker. The part of
  the client it uses: the options \<open>KeepAlive\<close> (seconds, \<open>int64\<close>) and \<open>PingTimeout\<close> (a
  duration, \<open>int64\<close> nanoseconds), the cells \<open>lastSent\<close> and \<open>lastReceived\<close>, and the flag
  \<open>pingOutstanding\<close> (\<open>int32\<close>, only ever 0 or 1). Times and durations are integer
  nanoseconds. The product \<open>c.options.KeepAlive*int64(time.Second)\<close> is taken in \<open>int64\<close>
  and wraps around: \<open>wrap_int64\<close>. \<open>time.Since(t)\<close> is the clock minus \<open>t\<close>, cut to the
  range of a duration as the library does: \<open>time_Since\<close>.
\<close>

type_synonym Duration = int

definition Second :: Duration where
  "Second = 1000000000"

record client =
  KeepAlive :: int
  PingTimeout :: Duration
  lastSent :: Time
  lastReceived :: Time
  pingOutstanding :: int

definition wrap_int64 :: "int \<Rightarrow> int" where
  "wrap_int64 x = (x + 2 ^ 63) mod 2 ^ 64 - 2 ^ 63"

definition maxDuration :: Duration where
  "maxDuration = 2 ^ 63 - 1"

definition minDuration :: Duration where
  "minDuration = - (2 ^ 63)"

definition time_Since :: "Time \<Rightarrow> Time \<Rightarrow> Duration" where
  "time_Since clock t = max minDuration (min maxDuration (clock - t))"

definition checkInterval :: "client \<Rightarrow> Duration" where
  "checkInterval c =
     (if KeepAlive c > 10 then 5 * Second else wrap_int64 (KeepAlive c * Second) sdiv 4)"

text \<open>
  The zero \<open>time.Time\<close> (the initial value of \<open>pingSent\<close>) is the first of January of the
  year 1, long before any clock reading.
\<close>

definition zero_Time :: Time where
  "zero_Time = - 62135596800 * Second"

text \<open>
  What one tick takes from outside: the clock at each of the places where the body reads
  it, in the order of the source, and whether writing the PINGREQ failed.
\<close>

record tick_reads =
  clock_since_lastSent :: Time
  clock_since_lastReceived :: Time
  clock_store_lastSent :: Time
  clock_pingSent :: Time
  clock_since_pingSent :: Time
  write_failed :: bool

text \<open>
  What the monitor does to the outside: it writes a PINGREQ to the connection (the write
  may fail, which is only logged) and it calls \<open>internalConnLost\<close>.
\<close>

datatype action = Pingreq bool | InternalConnLost

text \<open>
  The body of the \<open>case <-intervalTicker.C\<close> branch. It returns the client, the local
  \<open>pingSent\<close>, the actions in order, and whether the function returns.
\<close>

definition keepalive_tick ::
  "client \<Rightarrow> Time \<Rightarrow> tick_reads \<Rightarrow> client \<times> Time \<times> action list \<times> bool" where
  "keepalive_tick c pingSent rd =
     (let due = (time_Since (clock_since_lastSent rd) (lastSent c)
                   \<ge> wrap_int64 (KeepAlive c * Second)
                 \<or> time_Since (clock_since_lastReceived rd) (lastReceived c)
                   \<ge> wrap_int64 (KeepAlive c * Second));
          (c', pingSent', out) =
            (if due \<and> pingOutstanding c = 0
             then (c\<lparr>pingOutstanding := 1, lastSent := clock_store_lastSent rd\<rparr>,
                   clock_pingSent rd, [Pingreq (write_failed rd)])
             else (c, pingSent, []))
      in if pingOutstanding c' > 0
            \<and> time_Since (clock_since_pingSent rd) pingSent' \<ge> PingTimeout c'
         then (c', pingSent', out @ [InternalConnLost], True)
         else (c', pingSent', out, False))"

text \<open>
  Modelled from the spec: the reader and the writer of the connection, which are not among
  the sources, stamp \<open>lastSent\<close> and \<open>lastReceived\<close>, and an arriving PINGRESP (at the time
  given) clears the flag \<open>pingOutstanding\<close>. These are the last three events. \<open>Stop\<close> and
  \<open>Tick\<close> are the two cases of the \<open>select\<close> in the source. An event is what happens
  between two iterations of the loop: each cell is read and written atomically, and the
  writes of other goroutines are taken between two iterations.
\<close>

datatype event = Stop | Tick tick_reads | PingrespArrived Time | Sent Time | Received Time

text \<open>
  The loop over the events of a run. The result is the client, the actions in order, and
  whether the function has returned (it is still waiting in the \<open>select\<close> otherwise).
\<close>

fun keepalive_loop :: "client \<Rightarrow> Time \<Rightarrow> event list \<Rightarrow> client \<times> action list \<times> bool" where
  "keepalive_loop c pingSent [] = (c, [], False)"
| "keepalive_loop c pingSent (Stop # es) = (c, [], True)"
| "keepalive_loop c pingSent (Tick rd # es) =
     (case keepalive_tick c pingSent rd of
        (c', pingSent', out, True) \<Rightarrow> (c', out, True)
      | (c', pingSent', out, False) \<Rightarrow>
          (case keepalive_loop c' pingSent' es of
             (c'', out', returned) \<Rightarrow> (c'', out @ out', returned)))"
| "keepalive_loop c pingSent (PingrespArrived t # es) =
     keepalive_loop (c\<lparr>pingOutstanding := 0\<rparr>) pingSent es"
| "keepalive_loop c pingSent (Sent t # es) = keepalive_loop (c\<lparr>lastSent := t\<rparr>) pingSent es"
| "keepalive_loop c pingSent (Received t # es) =
     keepalive_loop (c\<lparr>lastReceived := t\<rparr>) pingSent es"

definition keepalive :: "client \<Rightarrow> event list \<Rightarrow> client \<times> action list \<times> bool" where
  "keepalive c es = keepalive_loop c zero_Time es"

text \<open>A tick at which every clock reading is \<open>t\<close> and the write succeeds.\<close>

definition reads_at :: "Time \<Rightarrow> tick_reads" where
  "reads_at t =
     \<lparr>clock_since_lastSent = t, clock_since_lastReceived = t, clock_store_lastSent = t,
      clock_pingSent = t, clock_since_pingSent = t, write_failed = False\<rparr>"

definition tick_at :: "Time \<Rightarrow> event" where
  "tick_at t = Tick (reads_at t)"

fun is_Pingreq :: "action \<Rightarrow> bool" where
  "is_Pingreq (Pingreq w) = True"
| "is_Pingreq InternalConnLost = False"

fun is_PingrespArrived :: "event \<Rightarrow> bool" where
  "is_PingrespArrived (PingrespArrived t) = True"
| "is_PingrespArrived e = False"

section \<open>Properties of the codec\<close>

subsection \<open>Decoding a remaining length\<close>

lemma decodeLength_loop_stop:
  "digit AND 128 = 0 \<Longrightarrow> multiplier < 27 \<Longrightarrow>
   decodeLength_loop (digit # r) rLength multiplier =
     (Inr (uint (rLength OR push_bit (unat multiplier) (ucast (digit AND 127)))), r)"
  by (subst decodeLength_loop.simps) simp

lemma decodeLength_loop_continue:
  "digit AND 128 \<noteq> 0 \<Longrightarrow> multiplier < 27 \<Longrightarrow>
   decodeLength_loop (digit # r) rLength multiplier =
     decodeLength_loop r (rLength OR push_bit (unat multiplier) (ucast (digit AND 127)))
       (multiplier + 7)"
  by (subst decodeLength_loop.simps) simp

lemma decodeLength_loop_exit:
  "\<not> multiplier < 27 \<Longrightarrow> decodeLength_loop r rLength multiplier = (Inr (uint rLength), r)"
  by (subst decodeLength_loop.simps) simp

lemma decodeLength_loop_eof:
  "multiplier < 27 \<Longrightarrow> decodeLength_loop [] rLength multiplier = (Inl EOF, [])"
  by (subst decodeLength_loop.simps) simp

text \<open>
  C1 (as the code has it). A stream whose first four remaining-length bytes all carry the
  continuation bit makes \<open>decodeLength\<close> stop after exactly those four bytes, whatever
  follows (a fifth continuation byte included): the loop guard \<open>multiplier < 27\<close> ends the
  loop, and the function returns the 28 bits gathered so far as a length, with no error.
  The bytes after the fourth stay unread in the stream.
\<close>

theorem decodeLength_four_continuation_bytes:
  assumes "b1 AND 128 \<noteq> 0" and "b2 AND 128 \<noteq> 0" and "b3 AND 128 \<noteq> 0" and "b4 AND 128 \<noteq> 0"
  shows "decodeLength (b1 # b2 # b3 # b4 # rest) =
           (Inr (uint (((ucast (b1 AND 127) OR push_bit 7 (ucast (b2 AND 127)))
                       OR push_bit 14 (ucast (b3 AND 127)))
                       OR push_bit 21 (ucast (b4 AND 127)) :: 32 word)), rest)"
proof -
  have "decodeLength (b1 # b2 # b3 # b4 # rest) =
          decodeLength_loop (b2 # b3 # b4 # rest) (ucast (b1 AND 127)) 7"
    using assms(1) by (simp add: decodeLength_def decodeLength_loop_continue)
  also have "\<dots> = decodeLength_loop (b3 # b4 # rest)
                     (ucast (b1 AND 127) OR push_bit 7 (ucast (b2 AND 127))) 14"
    using assms(2) by (simp add: decodeLength_loop_continue)
  also have "\<dots> = decodeLength_loop (b4 # rest)
                     ((ucast (b1 AND 127) OR push_bit 7 (ucast (b2 AND 127)))
                      OR push_bit 14 (ucast (b3 AND 127))) 21"
    using assms(3) by (simp add: decodeLength_loop_continue)
  also have "\<dots> = decodeLength_loop rest
                     (((ucast (b1 AND 127) OR push_bit 7 (ucast (b2 AND 127)))
                      OR push_bit 14 (ucast (b3 AND 127)))
                      OR push_bit 21 (ucast (b4 AND 127))) 28"
    using assms(4) by (simp add: decodeLength_loop_continue)
  finally show ?thesis
    by (simp add: decodeLength_loop_exit)
qed

theorem decodeLength_four_continuation_bytes_witness:
  "decodeLength [0xFF, 0xFF, 0xFF, 0xFF, 0x80, 0x01] = (Inr 268435455, [0x80, 0x01])"
  using decodeLength_four_continuation_bytes [of "0xFF" "0xFF" "0xFF" "0xFF" "[0x80, 0x01]"]
  by simp

text \<open>
  C1 (as the spec has it) fails: on five continuation bytes the code returns the length 0
  and no error.
\<close>

theorem decodeLength_fifth_continuation_byte_counterexample:
  "decodeLength [0x80, 0x80, 0x80, 0x80, 0x80] = (Inr 0, [0x80])"
  by (simp add: decodeLength_def decodeLength_loop_continue decodeLength_loop_exit)

subsection \<open>Encoding a remaining length\<close>

lemma encodeLength_loop_step:
  "encodeLength_loop len encLength =
     (if len sdiv 128 = 0 then encLength @ [word_of_int (len smod 128)]
      else encodeLength_loop (len sdiv 128)
             (encLength @ [if len sdiv 128 > 0 then word_of_int (len smod 128) OR 0x80
                           else word_of_int (len smod 128)]))"
  by (subst encodeLength_loop.simps) (simp add: Let_def)

lemmas roundtrip_simps =
  encodeLength_def encodeLength_loop_step signed_divide_int_def signed_modulo_int_def
  decodeLength_def decodeLength_loop_continue decodeLength_loop_stop

text \<open>
  C3. For each of the boundary lengths 0, 1, 127, 128, 16383, 16384, 2097151 and 2097152,
  decoding the bytes that \<open>encodeLength\<close> produces gives back exactly that length, with no
  error and no byte left over.
\<close>

theorem decodeLength_encodeLength_boundaries:
  "decodeLength (encodeLength 0) = (Inr 0, [])
   \<and> decodeLength (encodeLength 1) = (Inr 1, [])
   \<and> decodeLength (encodeLength 127) = (Inr 127, [])
   \<and> decodeLength (encodeLength 128) = (Inr 128, [])
   \<and> decodeLength (encodeLength 16383) = (Inr 16383, [])
   \<and> decodeLength (encodeLength 16384) = (Inr 16384, [])
   \<and> decodeLength (encodeLength 2097151) = (Inr 2097151, [])
   \<and> decodeLength (encodeLength 2097152) = (Inr 2097152, [])"
  by (simp add: roundtrip_simps)

subsection \<open>Length-prefixed fields\<close>

lemma PutUint16_hi:
  assumes "n \<le> 65535"
  shows "(ucast (drop_bit 8 (word_of_nat n :: 16 word)) :: 8 word) = word_of_nat (n div 256)"
proof -
  have "unat (ucast (drop_bit 8 (word_of_nat n :: 16 word)) :: 8 word)
        = ((n mod 65536) div 256) mod 256"
    by (simp add: unsigned_ucast_eq unat_drop_bit_eq unat_div unat_of_nat take_bit_eq_mod
        drop_bit_eq_div)
  also have "\<dots> = (n div 256) mod 256"
    using assms by simp
  also have "\<dots> = unat (word_of_nat (n div 256) :: 8 word)"
    by (simp add: unat_of_nat)
  finally show ?thesis
    by (simp only: word_unat_eq_iff)
qed

lemma PutUint16_lo: "(ucast (word_of_nat n :: 16 word) :: 8 word) = word_of_nat (n mod 256)"
proof -
  have "unat (ucast (word_of_nat n :: 16 word) :: 8 word) = (n mod 65536) mod 256"
    by (simp add: unsigned_ucast_eq unat_of_nat take_bit_eq_mod)
  also have "\<dots> = (n mod 256) mod 256"
    by (simp add: mod_mod_cancel)
  also have "\<dots> = unat (word_of_nat (n mod 256) :: 8 word)"
    by (simp add: unat_of_nat)
  finally show ?thesis
    by (simp only: word_unat_eq_iff)
qed

lemma PutUint16_big_endian:
  "n \<le> 65535 \<Longrightarrow>
   PutUint16 (word_of_nat n) = [word_of_nat (n div 256), word_of_nat (n mod 256)]"
  by (simp only: PutUint16_def PutUint16_hi PutUint16_lo)

lemma big_endian_value:
  "n \<le> 65535 \<Longrightarrow>
   256 * unat (word_of_nat (n div 256) :: byte) + unat (word_of_nat (n mod 256) :: byte) = n"
  by (simp add: unat_of_nat)

text \<open>
  C8. A field of at most 65535 bytes is emitted in full behind its length as two bytes,
  high byte first; a longer field is cut to its first 65535 bytes, behind the prefix
  \<open>0xFF 0xFF\<close>. In both cases the two prefix bytes read big-endian give the number of field
  bytes that follow, and the function returns bytes only: there is no error to report.
  \<open>encodeString\<close> does the same on the bytes of a string.
\<close>

theorem encodeBytes_prefix_and_truncation:
  "(length field \<le> 65535 \<longrightarrow>
      encodeBytes field =
        [word_of_nat (length field div 256), word_of_nat (length field mod 256)] @ field)
   \<and> (length field > 65535 \<longrightarrow> encodeBytes field = [0xFF, 0xFF] @ take 65535 field)
   \<and> 256 * unat (encodeBytes field ! 0) + unat (encodeBytes field ! 1) = min (length field) 65535
   \<and> drop 2 (encodeBytes field) = take 65535 field
   \<and> encodeString field = encodeBytes field"
proof (cases "length field \<le> 65535")
  case True
  then have "encodeBytes field =
      [word_of_nat (length field div 256), word_of_nat (length field mod 256)] @ field"
    by (simp add: encodeBytes_def PutUint16_big_endian)
  with True big_endian_value [OF True] show ?thesis
    by (simp add: encodeString_def)
next
  case False
  then have "encodeBytes field = [0xFF, 0xFF] @ take 65535 field"
    by (simp add: encodeBytes_def PutUint16_def min_def)
  with False show ?thesis
    by (simp add: encodeString_def)
qed

theorem encodeBytes_prefix_and_truncation_witness:
  "encodeBytes [1, 2, 3] = [0, 3, 1, 2, 3]
   \<and> encodeBytes (replicate 65536 7) = [0xFF, 0xFF] @ replicate 65535 7"
  using encodeBytes_prefix_and_truncation [of "[1, 2, 3]"]
    encodeBytes_prefix_and_truncation [of "replicate 65536 7"]
  by simp

subsection \<open>Constructing packets\<close>

lemma known_iff: "known t \<longleftrightarrow> t \<in> {1, 2, 3, 4, 5, 6, 7, 8, 9, 10, 11, 12, 13, 14}"
  by (simp add: known_def PacketNames_def)

text \<open>
  C4 (as the code has it). Construction is total over the 14 known packet types. For a
  known type \<open>NewControlPacket\<close> returns the variant of that type whose own fields are all
  zero and whose header is zero apart from the message type and, for PUBREL, SUBSCRIBE and
  UNSUBSCRIBE, a QoS of 1; \<open>NewControlPacketWithHeader\<close> returns the variant of the
  header's type, with the header it was given and its own fields zero. For any other type
  \<open>NewControlPacket\<close> returns nil and \<open>NewControlPacketWithHeader\<close> returns the error
  "unsupported packet type".
\<close>

theorem NewControlPacket_total:
  "(known t \<longrightarrow>
      (\<exists>cp. NewControlPacket t = Some (cp :: ('b::zero) ControlPacket)
          \<and> variant cp = t \<and> own_fields cp = 0
          \<and> header cp = FixedHeader_zero
               \<lparr>MessageType := t,
                Qos := (if t = Pubrel \<or> t = Subscribe \<or> t = Unsubscribe then 1 else 0)\<rparr>)
    \<and> (\<exists>cp. NewControlPacketWithHeader (fh\<lparr>MessageType := t\<rparr>) = Inr (cp :: 'b ControlPacket)
          \<and> variant cp = t \<and> own_fields cp = 0 \<and> header cp = fh\<lparr>MessageType := t\<rparr>))
   \<and> (\<not> known t \<longrightarrow>
        (NewControlPacket t :: 'b ControlPacket option) = None
      \<and> (NewControlPacketWithHeader (fh\<lparr>MessageType := t\<rparr>) :: error + 'b ControlPacket)
          = Inl (ErrUnsupportedPacketType t))"
proof (cases "known t")
  case True
  then consider "t = 1" | "t = 2" | "t = 3" | "t = 4" | "t = 5" | "t = 6" | "t = 7" | "t = 8"
    | "t = 9" | "t = 10" | "t = 11" | "t = 12" | "t = 13" | "t = 14"
    by (auto simp: known_iff)
  then show ?thesis
    by cases (simp_all add: known_iff NewControlPacket_def NewControlPacketWithHeader_def
        FixedHeader_zero_def)
next
  case False
  then show ?thesis
    by (simp add: known_iff NewControlPacket_def NewControlPacketWithHeader_def)
qed

theorem NewControlPacket_total_witness:
  "known 6 \<and> \<not> known 0
   \<and> (NewControlPacket 6 :: nat ControlPacket option)
        = Some (PubrelPacket \<lparr>MessageType = 6, Dup = False, Qos = 1, Retain = False,
                               RemainingLength = 0\<rparr> 0)
   \<and> (NewControlPacket 0 :: nat ControlPacket option) = None
   \<and> (NewControlPacketWithHeader (FixedHeader_zero\<lparr>MessageType := 0\<rparr>)
        :: error + nat ControlPacket) = Inl (ErrUnsupportedPacketType 0)"
  using NewControlPacket_total [of 6 FixedHeader_zero, where 'b = nat]
    NewControlPacket_total [of 0 FixedHeader_zero, where 'b = nat]
  by (simp add: known_iff NewControlPacket_def FixedHeader_zero_def)

text \<open>
  C4 (as the spec has it) fails: the PUBREL packet that \<open>NewControlPacket\<close> returns is not
  zero-valued, its header has QoS 1; and for the unknown type 0 \<open>NewControlPacket\<close> returns
  nil, it has no error to return.
\<close>

theorem NewControlPacket_Pubrel_counterexample:
  "(NewControlPacket Pubrel :: nat ControlPacket option)
     = Some (PubrelPacket \<lparr>MessageType = Pubrel, Dup = False, Qos = 1, Retain = False,
                            RemainingLength = 0\<rparr> 0)
   \<and> (NewControlPacket Pubrel :: nat ControlPacket option)
     \<noteq> Some (PubrelPacket (FixedHeader_zero\<lparr>MessageType := Pubrel\<rparr>) 0)
   \<and> (NewControlPacket 0 :: nat ControlPacket option) = None"
  by (simp add: NewControlPacket_def FixedHeader_zero_def)

subsection \<open>Reading a packet\<close>

lemma decodeLength_loop_nonneg:
  "decodeLength_loop r rLength multiplier = (Inr n, r') \<Longrightarrow> 0 \<le> n"
proof (induction r rLength multiplier rule: decodeLength_loop.induct)
  case (1 r rLength multiplier)
  show ?case
  proof (cases "multiplier < 27")
    case False
    with "1.prems" show ?thesis
      by (auto simp: decodeLength_loop_exit)
  next
    case True
    show ?thesis
    proof (cases r)
      case Nil
      with True "1.prems" show ?thesis
        by (simp add: decodeLength_loop_eof)
    next
      case (Cons digit r1)
      show ?thesis
      proof (cases "digit AND 128 = 0")
        case stop: True
        with True Cons "1.prems" show ?thesis
          by (auto simp: decodeLength_loop_stop)
      next
        case continue: False
        with True Cons "1.prems" "1.IH" show ?thesis
          by (simp add: decodeLength_loop_continue)
      qed
    qed
  qed
qed

lemma FixedHeader_unpack_nonneg:
  "FixedHeader_unpack fh0 b r = ((fh, err), r') \<Longrightarrow> 0 \<le> RemainingLength fh"
  by (auto simp: FixedHeader_unpack_def decodeLength_def Let_def
      split: prod.splits sum.splits dest: decodeLength_loop_nonneg)

lemma ReadFull_enough:
  "n \<le> length r \<Longrightarrow> ReadFull n r = (Inr (take n r), drop n r)"
  by (cases r) (auto simp: ReadFull_def)

text \<open>
  C10. Whenever the fixed header parses (first byte \<open>b\<close>, header \<open>fh\<close> of a known type,
  packet \<open>cp\<close>), the stream holds the \<open>RemainingLength\<close> body bytes, and the variant's
  \<open>Unpack\<close> of exactly those bytes fails with \<open>err\<close>, \<open>ReadPacket\<close> returns the packet
  (as \<open>Unpack\<close> left it) together with that error: both return values are non-nil. The
  witness below is such a stream: a CONNACK header with remaining length 0, for an
  \<open>Unpack\<close> that needs one byte of body.
\<close>

theorem ReadPacket_unpack_failure:
  assumes "FixedHeader_unpack FixedHeader_zero b r = ((fh, None), r2)"
    and "NewControlPacketWithHeader fh = Inr cp"
    and "nat (RemainingLength fh) \<le> length r2"
    and "Unpack cp (take (nat (RemainingLength fh)) r2) = (cp', Some err)"
  shows "ReadPacket Unpack (b # r) = ((Some cp', Some err), drop (nat (RemainingLength fh)) r2)"
proof -
  have first: "ReadFull (Suc 0) (b # r) = (Inr [b], r)"
    by (simp add: ReadFull_def)
  have nonneg: "0 \<le> RemainingLength fh"
    using assms(1) by (rule FixedHeader_unpack_nonneg)
  have body: "ReadFull (nat (RemainingLength fh)) r2 =
      (Inr (take (nat (RemainingLength fh)) r2), drop (nat (RemainingLength fh)) r2)"
    using assms(3) by (rule ReadFull_enough)
  have len: "int (length (take (nat (RemainingLength fh)) r2)) = RemainingLength fh"
    using assms(3) nonneg by simp
  show ?thesis
    unfolding ReadPacket_def
    by (simp add: first assms(1,2,4) body len del: length_take)
qed

theorem ReadPacket_unpack_failure_witness:
  "ReadPacket (\<lambda>cp bs. (cp, case fst (decodeByte bs) of Inl e \<Rightarrow> Some e | Inr x \<Rightarrow> None))
     [0x20, 0x00] =
     ((Some (ConnackPacket \<lparr>MessageType = 2, Dup = False, Qos = 0, Retain = False,
                             RemainingLength = 0\<rparr> (0::nat)), Some EOF), [])"
proof -
  have h1: "FixedHeader_unpack FixedHeader_zero 0x20 [0x00] =
      ((\<lparr>MessageType = 2, Dup = False, Qos = 0, Retain = False, RemainingLength = 0\<rparr>, None), [])"
    by (simp add: FixedHeader_unpack_def FixedHeader_zero_def decodeLength_def
        decodeLength_loop_stop)
  have h2: "NewControlPacketWithHeader
      \<lparr>MessageType = 2, Dup = False, Qos = 0, Retain = False, RemainingLength = 0\<rparr>
      = Inr (ConnackPacket \<lparr>MessageType = 2, Dup = False, Qos = 0, Retain = False,
                             RemainingLength = 0\<rparr> (0::nat))"
    by (simp add: NewControlPacketWithHeader_def)
  show ?thesis
    using ReadPacket_unpack_failure [OF h1 h2,
        of "\<lambda>cp bs. (cp, case fst (decodeByte bs) of Inl e \<Rightarrow> Some e | Inr x \<Rightarrow> None)" _ EOF]
    by (simp add: decodeByte_def)
qed

section \<open>Properties of the stores\<close>

subsection \<open>The sort and the map iteration\<close>

lemma set_sift: "set (sift lessf x rp) = insert x (set rp)"
  by (induction rp) auto

lemma distinct_map_sift:
  "distinct (map g (sift lessf x rp)) = distinct (map g (x # rp))"
  by (induction rp) (auto simp: set_sift)

lemma sorted_sift:
  fixes f :: "'a \<Rightarrow> 'b::linorder"
  assumes "sorted_wrt (\<lambda>a b. f b \<le> f a) rp"
  shows "sorted_wrt (\<lambda>a b. f b \<le> f a) (sift (\<lambda>a b. f a < f b) x rp)"
  using assms by (induction rp) (auto simp: set_sift)

lemma foldl_sift_set:
  "set (foldl (\<lambda>rp x. sift lessf x rp) acc xs) = set acc \<union> set xs"
  by (induction xs arbitrary: acc) (auto simp: set_sift)

lemma foldl_sift_distinct:
  "distinct (map g (foldl (\<lambda>rp x. sift lessf x rp) acc xs)) = distinct (map g (rev acc @ xs))"
proof (induction xs arbitrary: acc)
  case Nil
  show ?case by (simp add: distinct_rev rev_map [symmetric])
next
  case (Cons x xs)
  have "distinct (map g (rev (sift lessf x acc) @ xs)) = distinct (map g (rev acc @ x # xs))"
    using distinct_map_sift [of g lessf x acc]
    by (auto simp: set_sift rev_map [symmetric])
  with Cons.IH [of "sift lessf x acc"] show ?case by simp
qed

lemma foldl_sift_sorted:
  fixes f :: "'a \<Rightarrow> 'b::linorder"
  assumes "sorted_wrt (\<lambda>a b. f b \<le> f a) acc"
  shows "sorted_wrt (\<lambda>a b. f b \<le> f a) (foldl (\<lambda>rp x. sift (\<lambda>a b. f a < f b) x rp) acc xs)"
  using assms by (induction xs arbitrary: acc) (auto intro: sorted_sift)

lemma set_sort_Slice: "set (sort_Slice lessf xs) = set xs"
  by (simp add: sort_Slice_def foldl_sift_set)

lemma distinct_sort_Slice: "distinct (map g (sort_Slice lessf xs)) = distinct (map g xs)"
proof -
  have "distinct (map g (sort_Slice lessf xs)) =
        distinct (rev (map g (foldl (\<lambda>rp x. sift lessf x rp) [] xs)))"
    by (simp only: sort_Slice_def rev_map)
  also have "\<dots> = distinct (map g (foldl (\<lambda>rp x. sift lessf x rp) [] xs))"
    by (simp only: distinct_rev)
  also have "\<dots> = distinct (map g xs)"
    using foldl_sift_distinct [of g lessf "[]" xs] by simp
  finally show ?thesis .
qed

lemma sorted_sort_Slice:
  fixes f :: "'a \<Rightarrow> 'b::linorder"
  shows "sorted (map f (sort_Slice (\<lambda>a b. f a < f b) xs))"
  using foldl_sift_sorted [of f "[]" xs]
  by (simp add: sort_Slice_def sorted_map sorted_wrt_rev)

lemma range_map_Nil [simp]: "range_map m [] = []"
  by (simp add: range_map_def List.map_filter_simps)

lemma range_map_Cons:
  "range_map m (k # ks) = (case m k of None \<Rightarrow> range_map m ks | Some v \<Rightarrow> (k, v) # range_map m ks)"
  by (simp add: range_map_def List.map_filter_simps split: option.splits)

lemma range_map_empty [simp]: "range_map Map.empty order = []"
  by (induction order) (simp_all add: range_map_Cons)

lemma set_range_map: "set (range_map m order) = {(k, v). k \<in> set order \<and> m k = Some v}"
  by (induction order) (auto simp: range_map_Cons split: option.splits)

lemma map_fst_range_map: "set order \<subseteq> dom m \<Longrightarrow> map fst (range_map m order) = order"
  by (induction order) (auto simp: range_map_Cons split: option.splits)

subsection \<open>OrderedMemoryStore\<close>

lemma foldl_tsKeys:
  "foldl (\<lambda>tsKeys (k, v). tsKeys @ [(ts v, k)]) acc xs = acc @ map (\<lambda>(k, v). (ts v, k)) xs"
  by (induction xs arbitrary: acc) auto

lemma OrderedMemoryStore_All_eq:
  "oopened store \<Longrightarrow>
   OrderedMemoryStore_All store order =
     map snd (sort_Slice (\<lambda>a b. fst a < fst b)
       (map (\<lambda>(k, v). (ts v, k)) (range_map (omessages store) order)))"
  by (simp add: OrderedMemoryStore_All_def Let_def foldl_tsKeys)

lemma two_element_orders:
  assumes "distinct order" and "set order = {a, b}" and "a \<noteq> b"
  shows "order = [a, b] \<or> order = [b, a]"
proof -
  have "length order = 2"
    using assms distinct_card [of order] by simp
  then obtain x y where "order = [x, y]"
    by (cases order; cases "tl order") auto
  with assms show ?thesis by auto
qed

lemma OrderedMemoryStore_All_sorted:
  assumes "oopened store" and "iteration_order (omessages store) order"
  shows "set (OrderedMemoryStore_All store order) = dom (omessages store)"
    and "distinct (OrderedMemoryStore_All store order)"
    and "sorted (map (\<lambda>k. the (recorded store k)) (OrderedMemoryStore_All store order))"
proof -
  let ?m = "omessages store"
  let ?tsKeys = "map (\<lambda>(k, v). (ts v, k)) (range_map ?m order)"
  let ?sorted = "sort_Slice (\<lambda>a b. fst a < fst b) ?tsKeys"
  have all: "OrderedMemoryStore_All store order = map snd ?sorted"
    using assms(1) by (rule OrderedMemoryStore_All_eq)
  have sub: "set order \<subseteq> dom ?m" and dist: "distinct order" and dom: "set order = dom ?m"
    using assms(2) by (auto simp: iteration_order_def)
  have keys: "map snd ?tsKeys = order"
    using map_fst_range_map [OF sub] by (simp add: case_prod_unfold comp_def)
  show "set (OrderedMemoryStore_All store order) = dom ?m"
  proof -
    have "set (map snd ?sorted) = set (map snd ?tsKeys)"
      by (simp only: set_map set_sort_Slice)
    also have "\<dots> = dom ?m"
      by (simp only: keys dom)
    finally show ?thesis
      by (simp only: all)
  qed
  show "distinct (OrderedMemoryStore_All store order)"
    using distinct_sort_Slice [of snd "\<lambda>a b. fst a < fst b" ?tsKeys] keys dist all by simp
  have rec: "the (recorded store k) = t" if "(t, k) \<in> set ?sorted" for t k
  proof -
    from that have "(t, k) \<in> set ?tsKeys" by (simp add: set_sort_Slice)
    then obtain v where "?m k = Some v" and "t = ts v"
      by (auto simp: set_range_map)
    then show ?thesis by (simp add: recorded_def)
  qed
  have eq: "map (\<lambda>k. the (recorded store k)) (map snd ?sorted) = map fst ?sorted"
    using rec by (auto simp: comp_def)
  show "sorted (map (\<lambda>k. the (recorded store k)) (OrderedMemoryStore_All store order))"
    by (simp only: all eq sorted_sort_Slice)
qed

lemma two_puts_dom:
  "omessages store = Map.empty \<Longrightarrow> oopened store \<Longrightarrow>
   dom (omessages (OrderedMemoryStore_Put (OrderedMemoryStore_Put store k1 m1 t1) k2 m2 t2))
     = {k1, k2}"
  by (auto simp: OrderedMemoryStore_Put_def)

lemma two_puts_All:
  assumes "oopened store" and "omessages store = Map.empty" and "k1 \<noteq> k2" and "t1 < t2"
    and "order = [k1, k2] \<or> order = [k2, k1]"
  shows "OrderedMemoryStore_All
           (OrderedMemoryStore_Put (OrderedMemoryStore_Put store k1 m1 t1) k2 m2 t2) order
         = [k1, k2]"
  using assms
  by (auto simp: OrderedMemoryStore_All_def OrderedMemoryStore_Put_def Let_def range_map_Cons
      sort_Slice_def)

text \<open>
  C6 (as the code has it). On an open ordered store every \<open>Put\<close> records the current
  time against the key. \<open>All\<close> returns the stored keys, each once, in ascending order of
  the recorded times, whatever order the map iteration takes. After \<open>Put(k1, m1)\<close> at
  time \<open>t1\<close> and \<open>Put(k2, m2)\<close> at time \<open>t2\<close> on an open, empty store, with \<open>k1\<close> and
  \<open>k2\<close> distinct and \<open>t1\<close> strictly before \<open>t2\<close>, \<open>All\<close> returns \<open>[k1, k2]\<close>.
\<close>

theorem OrderedMemoryStore_Put_All:
  "(oopened store \<longrightarrow> recorded (OrderedMemoryStore_Put store k m now) k = Some now)
   \<and> (oopened store \<and> iteration_order (omessages store) order \<longrightarrow>
        set (OrderedMemoryStore_All store order) = dom (omessages store)
      \<and> distinct (OrderedMemoryStore_All store order)
      \<and> sorted (map (\<lambda>k. the (recorded store k)) (OrderedMemoryStore_All store order)))
   \<and> (oopened store0 \<and> omessages store0 = Map.empty \<and> k1 \<noteq> k2 \<and> t1 < t2
        \<and> iteration_order
            (omessages (OrderedMemoryStore_Put (OrderedMemoryStore_Put store0 k1 m1 t1) k2 m2 t2))
            order2 \<longrightarrow>
        OrderedMemoryStore_All
          (OrderedMemoryStore_Put (OrderedMemoryStore_Put store0 k1 m1 t1) k2 m2 t2) order2
        = [k1, k2])"
proof (intro conjI impI)
  assume "oopened store"
  then show "recorded (OrderedMemoryStore_Put store k m now) k = Some now"
    by (simp add: recorded_def OrderedMemoryStore_Put_def)
next
  assume "oopened store \<and> iteration_order (omessages store) order"
  then show "set (OrderedMemoryStore_All store order) = dom (omessages store)"
    and "distinct (OrderedMemoryStore_All store order)"
    and "sorted (map (\<lambda>k. the (recorded store k)) (OrderedMemoryStore_All store order))"
    by (simp_all add: OrderedMemoryStore_All_sorted)
next
  let ?s2 = "OrderedMemoryStore_Put (OrderedMemoryStore_Put store0 k1 m1 t1) k2 m2 t2"
  assume a: "oopened store0 \<and> omessages store0 = Map.empty \<and> k1 \<noteq> k2 \<and> t1 < t2
        \<and> iteration_order (omessages ?s2) order2"
  then have "distinct order2" and "set order2 = {k1, k2}"
    by (simp_all add: iteration_order_def two_puts_dom)
  with a have "order2 = [k1, k2] \<or> order2 = [k2, k1]"
    by (simp add: two_element_orders)
  with a show "OrderedMemoryStore_All ?s2 order2 = [k1, k2]"
    by (simp add: two_puts_All)
qed

theorem OrderedMemoryStore_Put_All_witness:
  "OrderedMemoryStore_All
     (OrderedMemoryStore_Put
       (OrderedMemoryStore_Put (OrderedMemoryStore_Open NewOrderedMemoryStore)
          ''o.1'' (NewControlPacket Publish :: nat ControlPacket option) 10)
       ''o.2'' (NewControlPacket Puback) 20)
     [''o.2'', ''o.1'']
   = [''o.1'', ''o.2'']
   \<and> recorded (OrderedMemoryStore_Put (OrderedMemoryStore_Open NewOrderedMemoryStore)
          ''o.1'' (NewControlPacket Publish :: nat ControlPacket option) 10) ''o.1'' = Some 10
   \<and> sorted (map (\<lambda>k. the (recorded
         (OrderedMemoryStore_Put
           (OrderedMemoryStore_Put (OrderedMemoryStore_Open NewOrderedMemoryStore)
              ''o.1'' (NewControlPacket Publish :: nat ControlPacket option) 10)
           ''o.2'' (NewControlPacket Puback) 20) k)) [''o.1'', ''o.2''])"
proof -
  let ?s0 = "OrderedMemoryStore_Open (NewOrderedMemoryStore :: nat ControlPacket OrderedMemoryStore)"
  let ?s1 = "OrderedMemoryStore_Put ?s0 ''o.1'' (NewControlPacket Publish) 10"
  let ?s2 = "OrderedMemoryStore_Put ?s1 ''o.2'' (NewControlPacket Puback) 20"
  have o: "oopened ?s0" and e: "omessages ?s0 = Map.empty"
    by (simp_all add: OrderedMemoryStore_Open_def NewOrderedMemoryStore_def)
  have o2: "oopened ?s2"
    by (simp add: OrderedMemoryStore_Put_def o)
  have i: "iteration_order (omessages ?s2) [''o.2'', ''o.1'']"
    by (auto simp: iteration_order_def OrderedMemoryStore_Put_def o e)
  have ne: "''o.1'' \<noteq> ''o.2''" and lt: "(10::int) < 20"
    by simp_all
  note inst1 = OrderedMemoryStore_Put_All [where store = ?s0 and k = "''o.1''"
      and m = "NewControlPacket Publish" and now = 10 and order = "[]"
      and ?store0.0 = ?s0 and ?k1.0 = "''o.1''" and ?k2.0 = "''o.2''" and ?t1.0 = 10 and ?t2.0 = 20
      and ?m1.0 = "NewControlPacket Publish" and ?m2.0 = "NewControlPacket Puback"
      and ?order2.0 = "[''o.2'', ''o.1'']"]
  note inst2 = OrderedMemoryStore_Put_All [where store = ?s2 and order = "[''o.2'', ''o.1'']"
      and ?store0.0 = ?s0 and ?k1.0 = "''o.1''" and ?k2.0 = "''o.2''" and ?t1.0 = 10 and ?t2.0 = 20
      and ?m1.0 = "NewControlPacket Publish" and ?m2.0 = "NewControlPacket Puback"
      and ?order2.0 = "[''o.2'', ''o.1'']"]
  have all: "OrderedMemoryStore_All ?s2 [''o.2'', ''o.1''] = [''o.1'', ''o.2'']"
    using inst1 o e i ne lt by blast
  have rec: "recorded ?s1 ''o.1'' = Some 10"
    using inst1 o by blast
  have "sorted (map (\<lambda>k. the (recorded ?s2 k)) (OrderedMemoryStore_All ?s2 [''o.2'', ''o.1'']))"
    using inst2 o2 i by blast
  with all rec show ?thesis
    by (simp only: simp_thms)
qed

text \<open>
  C6 (as the spec has it) fails when the clock gives both \<open>Put\<close>s the same time: the sort
  compares with \<open>Before\<close> only, so the keys stay in the order of the map iteration, and
  \<open>All\<close> returns \<open>[k2, k1]\<close> when the iteration visits \<open>k2\<close> first.
\<close>

theorem OrderedMemoryStore_equal_times_counterexample:
  "iteration_order
     (omessages (OrderedMemoryStore_Put
       (OrderedMemoryStore_Put (OrderedMemoryStore_Open NewOrderedMemoryStore)
          ''o.1'' (NewControlPacket Publish :: nat ControlPacket option) 10)
       ''o.2'' (NewControlPacket Puback) 10))
     [''o.2'', ''o.1'']
   \<and> OrderedMemoryStore_All
     (OrderedMemoryStore_Put
       (OrderedMemoryStore_Put (OrderedMemoryStore_Open NewOrderedMemoryStore)
          ''o.1'' (NewControlPacket Publish :: nat ControlPacket option) 10)
       ''o.2'' (NewControlPacket Puback) 10)
     [''o.2'', ''o.1'']
   = [''o.2'', ''o.1'']"
  by (auto simp: iteration_order_def OrderedMemoryStore_All_def OrderedMemoryStore_Put_def
      OrderedMemoryStore_Open_def NewOrderedMemoryStore_def Let_def range_map_Cons sort_Slice_def)

subsection \<open>MemoryStore\<close>

text \<open>
  C9. On an open in-memory store with any contents, and for a key on which \<open>mIDFromKey\<close>
  returns (a key of the data model: direction prefix and message identifier): after
  \<open>Put(k, m)\<close>, \<open>Get(k)\<close> returns \<open>m\<close>; \<open>Del(k)\<close> returns, and after it \<open>Get(k)\<close> returns
  nil; after \<open>Reset()\<close>, \<open>All()\<close> returns the empty sequence, whatever the map iteration
  does.
\<close>

theorem MemoryStore_Put_Get_Del_Reset:
  assumes "opened store" and "mIDFromKey k = Some mid"
  shows "MemoryStore_Get mIDFromKey (MemoryStore_Put store k m) k = Returns m
       \<and> (\<exists>store'. MemoryStore_Del mIDFromKey store k = Returns store'
              \<and> MemoryStore_Get mIDFromKey store' k = Returns None)
       \<and> MemoryStore_All (MemoryStore_Reset store) order = []"
  using assms
  by (auto simp: MemoryStore_Get_def MemoryStore_Put_def MemoryStore_Del_def Let_def
      MemoryStore_All_def MemoryStore_Reset_def split: option.splits)

theorem MemoryStore_Put_Get_Del_Reset_witness:
  "MemoryStore_Get mIDFromKey_o1
     (MemoryStore_Put (MemoryStore_Open NewMemoryStore) ''o.1''
        (NewControlPacket Publish :: nat ControlPacket option)) ''o.1''
     = Returns (NewControlPacket Publish)
   \<and> MemoryStore_Del mIDFromKey_o1
        (MemoryStore_Put (MemoryStore_Open NewMemoryStore) ''o.1''
           (NewControlPacket Publish :: nat ControlPacket option)) ''o.1''
     = Returns (MemoryStore_Open NewMemoryStore)
   \<and> MemoryStore_Get mIDFromKey_o1 (MemoryStore_Open NewMemoryStore) ''o.1''
     = (Returns None :: nat ControlPacket option outcome)
   \<and> MemoryStore_All
     (MemoryStore_Reset
        (MemoryStore_Put (MemoryStore_Open NewMemoryStore) ''o.1''
           (NewControlPacket Publish :: nat ControlPacket option))) []
     = []"
proof -
  let ?s0 = "MemoryStore_Open (NewMemoryStore :: nat ControlPacket MemoryStore)"
  let ?s1 = "MemoryStore_Put ?s0 ''o.1'' (NewControlPacket Publish)"
  have o0: "opened ?s0"
    by (simp add: MemoryStore_Open_def)
  have o1: "opened ?s1"
    by (simp add: MemoryStore_Put_def MemoryStore_Open_def)
  have mid: "mIDFromKey_o1 ''o.1'' = Some 1"
    by (simp add: mIDFromKey_o1_def)
  have del: "MemoryStore_Del mIDFromKey_o1 ?s1 ''o.1'' = Returns ?s0"
    by (simp add: MemoryStore_Del_def MemoryStore_Put_def MemoryStore_Open_def
        NewMemoryStore_def NewControlPacket_def mid)
  show ?thesis
    using MemoryStore_Put_Get_Del_Reset [where store = ?s0 and mIDFromKey = mIDFromKey_o1
        and k = "''o.1''" and mid = 1 and m = "NewControlPacket Publish" and order = "[]",
        OF o0 mid]
      MemoryStore_Put_Get_Del_Reset [where store = ?s1 and mIDFromKey = mIDFromKey_o1
        and k = "''o.1''" and mid = 1 and m = None and order = "[]", OF o1 mid]
      del
    by auto
qed

subsection \<open>Stores that are not open\<close>

text \<open>
  On a store that is not open, \<open>Put\<close>, \<open>Get\<close>, \<open>All\<close>, \<open>Del\<close> and \<open>Close\<close> return at
  once, before \<open>mIDFromKey\<close> is called: the store is unchanged and the result, where there
  is one, is nil.
\<close>

lemma MemoryStore_unopened_noop:
  assumes "\<not> opened store"
  shows "MemoryStore_Put store k m = store"
    and "MemoryStore_Get mIDFromKey store k = Returns None"
    and "MemoryStore_All store order = []"
    and "MemoryStore_Del mIDFromKey store k = Returns store"
    and "MemoryStore_Close store = store"
  using assms
  by (simp_all add: MemoryStore_Put_def MemoryStore_Get_def MemoryStore_All_def
      MemoryStore_Del_def MemoryStore_Close_def)

lemma OrderedMemoryStore_unopened_noop:
  assumes "\<not> oopened store"
  shows "OrderedMemoryStore_Put store k m now = store"
    and "OrderedMemoryStore_Get mIDFromKey store k = Returns None"
    and "OrderedMemoryStore_All store order = []"
    and "OrderedMemoryStore_Del mIDFromKey store k = Returns store"
    and "OrderedMemoryStore_Close store = store"
  using assms
  by (simp_all add: OrderedMemoryStore_Put_def OrderedMemoryStore_Get_def
      OrderedMemoryStore_All_def OrderedMemoryStore_Del_def OrderedMemoryStore_Close_def)

text \<open>
  C2 does not hold for \<open>Reset\<close> of the two in-memory stores: \<open>Reset\<close> logs that the store
  is not open and then replaces the map all the same. A store that is opened, given a
  message under \<open>o.1\<close> and closed still holds the message when it is opened again; with a
  \<open>Reset\<close> between \<open>Close\<close> and \<open>Open\<close> the message is gone. The message state of the
  closed store is changed by \<open>Reset\<close>, in \<open>MemoryStore\<close> and in \<open>OrderedMemoryStore\<close>.
\<close>

theorem Reset_on_closed_store_wipes:
  "\<not> opened (MemoryStore_Close
       (MemoryStore_Put (MemoryStore_Open NewMemoryStore) ''o.1''
          (NewControlPacket Publish :: nat ControlPacket option)))
   \<and> MemoryStore_Get mIDFromKey_o1 (MemoryStore_Open (MemoryStore_Close
       (MemoryStore_Put (MemoryStore_Open NewMemoryStore) ''o.1''
          (NewControlPacket Publish :: nat ControlPacket option)))) ''o.1''
     = Returns (NewControlPacket Publish)
   \<and> MemoryStore_Get mIDFromKey_o1 (MemoryStore_Open (MemoryStore_Reset (MemoryStore_Close
       (MemoryStore_Put (MemoryStore_Open NewMemoryStore) ''o.1''
          (NewControlPacket Publish :: nat ControlPacket option))))) ''o.1''
     = Returns None
   \<and> messages (MemoryStore_Close
       (MemoryStore_Put (MemoryStore_Open NewMemoryStore) ''o.1''
          (NewControlPacket Publish :: nat ControlPacket option))) ''o.1''
     = Some (NewControlPacket Publish)
   \<and> messages (MemoryStore_Reset (MemoryStore_Close
       (MemoryStore_Put (MemoryStore_Open NewMemoryStore) ''o.1''
          (NewControlPacket Publish :: nat ControlPacket option)))) ''o.1''
     = None
   \<and> messages (MemoryStore_Reset (MemoryStore_Close
       (MemoryStore_Put (MemoryStore_Open NewMemoryStore) ''o.1''
          (NewControlPacket Publish :: nat ControlPacket option))))
     \<noteq> messages (MemoryStore_Close
       (MemoryStore_Put (MemoryStore_Open NewMemoryStore) ''o.1''
          (NewControlPacket Publish :: nat ControlPacket option)))
   \<and> omessages (OrderedMemoryStore_Reset (OrderedMemoryStore_Close
       (OrderedMemoryStore_Put (OrderedMemoryStore_Open NewOrderedMemoryStore) ''o.1''
          (NewControlPacket Publish :: nat ControlPacket option) 10)))
     \<noteq> omessages (OrderedMemoryStore_Close
       (OrderedMemoryStore_Put (OrderedMemoryStore_Open NewOrderedMemoryStore) ''o.1''
          (NewControlPacket Publish :: nat ControlPacket option) 10))"
  by (auto simp: MemoryStore_Close_def MemoryStore_Put_def MemoryStore_Open_def
      NewMemoryStore_def MemoryStore_Get_def MemoryStore_Reset_def NewControlPacket_def
      OrderedMemoryStore_Reset_def OrderedMemoryStore_Close_def OrderedMemoryStore_Put_def
      OrderedMemoryStore_Open_def NewOrderedMemoryStore_def fun_eq_iff mIDFromKey_o1_def)

section \<open>Properties of the router\<close>

lemmas router_defs = routeIncludesTopic_def routeSplit_def starts_with_wildcard_def
  starts_with_dollar_def

text \<open>
  The tables of \<open>Test_matchWithWildcardTopicFilter\<close> and of \<open>Test_match\<close> (its ASCII
  cases) hold of the definitions.
\<close>

lemma Test_matchWithWildcardTopicFilter_OK:
  "routeIncludesTopic ''example/+/temp/+'' ''example/gauge/temp/25''"
  "routeIncludesTopic ''$sys/+/temp/+'' ''$sys/gauge/temp/25''"
  "routeIncludesTopic ''example/machines/#'' ''example/machines/robot-2/voltage''"
  "routeIncludesTopic ''$SYS/machines/#'' ''$SYS/machines/robot-2/voltage''"
  "routeIncludesTopic ''+'' ''sensor''"
  "routeIncludesTopic ''+/example'' ''sensor/example''"
  "routeIncludesTopic ''#'' ''sensor/very/long/topic''"
  "routeIncludesTopic ''$share/group/+/example/+/data'' ''sensor/example/something/data''"
  "routeIncludesTopic ''$share/group/#'' ''sensor/this/is/shared''"
  by (simp_all add: router_defs)

lemma Test_matchWithWildcardTopicFilter_NG:
  "\<not> routeIncludesTopic ''+'' ''$SYS''"
  "\<not> routeIncludesTopic ''+/example/sensor/+'' ''$VENDOR/example/sensor/data''"
  "\<not> routeIncludesTopic ''#'' ''$sys/very/long/topic''"
  "\<not> routeIncludesTopic ''$share/group/#'' ''$vendor/this/is/shared''"
  by (simp_all add: router_defs)

lemma Test_match:
  "routeIncludesTopic [] []"
  "\<not> routeIncludesTopic ''x'' []"
  "\<not> routeIncludesTopic [] ''x''"
  "routeIncludesTopic ''x'' ''x''"
  "\<not> routeIncludesTopic ''x'' ''X''"
  "routeIncludesTopic ''alpha'' ''alpha''"
  "\<not> routeIncludesTopic ''alpha'' ''beta''"
  "routeIncludesTopic ''/'' ''/''"
  "routeIncludesTopic ''/one'' ''/one''"
  "\<not> routeIncludesTopic ''/'' ''/two''"
  "\<not> routeIncludesTopic ''/two'' ''/''"
  "\<not> routeIncludesTopic ''/two'' ''two''"
  "\<not> routeIncludesTopic ''/a/'' ''/a''"
  "\<not> routeIncludesTopic ''/a/'' ''/a/b''"
  "routeIncludesTopic ''/a/b'' ''/a/b''"
  "\<not> routeIncludesTopic ''/a/b/'' ''/a/b''"
  "\<not> routeIncludesTopic ''/a/b'' ''/R/b''"
  "routeIncludesTopic ''/a/+/c'' ''/a/b/c''"
  "routeIncludesTopic ''/+/b/c'' ''/a/b/c''"
  "routeIncludesTopic ''/a/b/+'' ''/a/b/c''"
  "routeIncludesTopic ''/a/+/+'' ''/a/b/c''"
  "routeIncludesTopic ''/+/+/+'' ''/a/b/c''"
  "routeIncludesTopic ''/+/+/c'' ''/a/b/c''"
  "\<not> routeIncludesTopic ''/a/b/c/+'' ''/a/b/c''"
  "routeIncludesTopic ''+'' ''a''"
  "\<not> routeIncludesTopic ''/+'' ''a''"
  "routeIncludesTopic ''+/+'' ''/a''"
  "\<not> routeIncludesTopic ''+/+'' ''a''"
  "routeIncludesTopic ''#'' ''/a/b/c''"
  "routeIncludesTopic ''/#'' ''/a/b/c''"
  "routeIncludesTopic ''/a/#'' ''/a/b/c''"
  "routeIncludesTopic ''/a/b/#'' ''/a/b/c''"
  by (simp_all add: router_defs)

lemma split_levels_not_Nil: "split_levels s \<noteq> []"
  by (induction s) (auto split: list.splits)

lemma split_levels_first_char:
  "c \<noteq> CHR ''/'' \<Longrightarrow> \<exists>l ls. split_levels (c # rest) = (c # l) # ls"
  using split_levels_not_Nil [of rest] by (auto split: list.splits)

lemma split_levels_level:
  "CHR ''/'' \<notin> set g \<Longrightarrow> split_levels (g @ CHR ''/'' # x) = g # split_levels x"
  by (induction g) (auto split: list.splits)

lemma routeSplit_leading_wildcard:
  assumes "c = CHR ''+'' \<or> c = CHR ''#''"
  shows "starts_with_wildcard (routeSplit (c # rest))"
proof -
  from assms have "c \<noteq> CHR ''/''" by auto
  then obtain l ls where sp: "split_levels (c # rest) = (c # l) # ls"
    using split_levels_first_char by blast
  have "c # l \<noteq> ''$share''"
    using assms by auto
  then have "routeSplit (c # rest) = (c # l) # ls"
    unfolding routeSplit_def sp using assms by (auto split: list.splits)
  with assms show ?thesis
    by (simp add: starts_with_wildcard_def del: split_levels.simps)
qed

lemma routeSplit_shared:
  assumes "CHR ''/'' \<notin> set grp"
  shows "routeSplit (''$share/'' @ grp @ ''/'' @ x) = split_levels x"
proof -
  have "''$share/'' @ grp @ ''/'' @ x = ''$share'' @ CHR ''/'' # (grp @ CHR ''/'' # x)"
    by simp
  then have "split_levels (''$share/'' @ grp @ ''/'' @ x) = ''$share'' # grp # split_levels x"
    using split_levels_level [of "''$share''" "grp @ CHR ''/'' # x"]
      split_levels_level [OF assms, of x]
    by (simp del: split_levels.simps)
  then show ?thesis
    using split_levels_not_Nil [of x]
    by (simp add: routeSplit_def del: split_levels.simps split: list.splits)
qed

lemma routeSplit_shared_leading_wildcard:
  assumes "c = CHR ''+'' \<or> c = CHR ''#''" and "CHR ''/'' \<notin> set grp"
  shows "starts_with_wildcard (routeSplit (''$share/'' @ grp @ ''/'' @ c # rest))"
proof -
  from assms(1) have "c \<noteq> CHR ''/''" by auto
  then obtain l ls where sp: "split_levels (c # rest) = (c # l) # ls"
    using split_levels_first_char by blast
  with routeSplit_shared [OF assms(2), of "c # rest"] assms(1) show ?thesis
    by (simp add: starts_with_wildcard_def del: split_levels.simps)
qed

text \<open>
  C5. A topic that begins with \<open>$\<close> is never matched by a filter whose first character
  is \<open>+\<close> or \<open>#\<close>, nor by a shared filter \<open>$share/<group>/<rest>\<close> whose \<open><rest>\<close> begins with
  \<open>+\<close> or \<open>#\<close>. For a filter that (after the shared prefix is removed) does not begin with a
  wildcard, a topic that begins with \<open>$\<close> is matched exactly when the level-by-level
  comparison succeeds.
\<close>

theorem dollar_topics_and_leading_wildcards:
  "(c = CHR ''+'' \<or> c = CHR ''#'' \<longrightarrow> \<not> routeIncludesTopic (c # rest) (CHR ''$'' # topic))
   \<and> ((c = CHR ''+'' \<or> c = CHR ''#'') \<and> CHR ''/'' \<notin> set grp \<longrightarrow>
        \<not> routeIncludesTopic (''$share/'' @ grp @ ''/'' @ c # rest) (CHR ''$'' # topic))
   \<and> (\<not> starts_with_wildcard (routeSplit route) \<longrightarrow>
        routeIncludesTopic route (CHR ''$'' # topic)
        = match_levels (routeSplit route) (split_levels (CHR ''$'' # topic)))"
  by (simp add: routeIncludesTopic_def starts_with_dollar_def routeSplit_leading_wildcard
      routeSplit_shared_leading_wildcard del: split_levels.simps append.simps)

theorem dollar_topics_and_leading_wildcards_witness:
  "\<not> routeIncludesTopic ''+'' ''$SYS''
   \<and> \<not> routeIncludesTopic ''$share/group/#'' ''$vendor/this/is/shared''
   \<and> routeIncludesTopic ''$SYS/machines/#'' ''$SYS/machines/robot-2/voltage''"
  using dollar_topics_and_leading_wildcards [of "CHR ''+''" "[]" "''SYS''" "''group''"
      "''$SYS/machines/#''"]
    dollar_topics_and_leading_wildcards [of "CHR ''#''" "[]" "''vendor/this/is/shared''"
      "''group''" "''$SYS/machines/#''"]
    dollar_topics_and_leading_wildcards [of "CHR ''#''" "[]" "''SYS/machines/robot-2/voltage''"
      "''group''" "''$SYS/machines/#''"]
  by (simp add: routeSplit_def starts_with_wildcard_def)

section \<open>Properties of the keepalive monitor\<close>

lemma keepalive_tick_eq:
  "keepalive_tick c pingSent rd =
     (if (time_Since (clock_since_lastSent rd) (lastSent c) \<ge> wrap_int64 (KeepAlive c * Second)
          \<or> time_Since (clock_since_lastReceived rd) (lastReceived c)
            \<ge> wrap_int64 (KeepAlive c * Second))
         \<and> pingOutstanding c = 0
      then (if time_Since (clock_since_pingSent rd) (clock_pingSent rd) \<ge> PingTimeout c
            then (c\<lparr>pingOutstanding := 1, lastSent := clock_store_lastSent rd\<rparr>,
                  clock_pingSent rd, [Pingreq (write_failed rd), InternalConnLost], True)
            else (c\<lparr>pingOutstanding := 1, lastSent := clock_store_lastSent rd\<rparr>,
                  clock_pingSent rd, [Pingreq (write_failed rd)], False))
      else if pingOutstanding c > 0
              \<and> time_Since (clock_since_pingSent rd) pingSent \<ge> PingTimeout c
      then (c, pingSent, [InternalConnLost], True)
      else (c, pingSent, [], False))"
  by (simp add: keepalive_tick_def Let_def)

lemma keepalive_tick_actions:
  assumes "keepalive_tick c pingSent rd = (c', pingSent', out, returned)"
  shows "count_list out InternalConnLost \<le> 1"
    and "InternalConnLost \<in> set out \<longleftrightarrow> returned"
    and "returned \<Longrightarrow> last out = InternalConnLost"
    and "length (filter is_Pingreq out) \<le> 1"
    and "filter is_Pingreq out \<noteq> [] \<Longrightarrow> pingOutstanding c = 0 \<and> pingOutstanding c' = 1"
    and "pingOutstanding c \<noteq> 0 \<Longrightarrow> pingOutstanding c' \<noteq> 0"
  using assms unfolding keepalive_tick_eq by (auto split: if_splits)

lemma keepalive_loop_lost_once:
  "keepalive_loop c pingSent es = (c', out, returned) \<Longrightarrow>
   count_list out InternalConnLost \<le> 1
   \<and> (InternalConnLost \<in> set out \<longrightarrow> returned \<and> last out = InternalConnLost)"
proof (induction c pingSent es arbitrary: c' out returned rule: keepalive_loop.induct)
  case (3 c pingSent rd es)
  obtain c1 ps1 out1 ret1 where t: "keepalive_tick c pingSent rd = (c1, ps1, out1, ret1)"
    by (metis prod_cases4)
  note a = keepalive_tick_actions [OF t]
  show ?case
  proof (cases ret1)
    case True
    with t "3.prems" a show ?thesis by auto
  next
    case False
    obtain c2 out2 ret2 where l: "keepalive_loop c1 ps1 es = (c2, out2, ret2)"
      by (metis prod_cases3)
    from "3.IH" [OF t [symmetric] refl refl _ l] False
    have ih: "count_list out2 InternalConnLost \<le> 1
        \<and> (InternalConnLost \<in> set out2 \<longrightarrow> ret2 \<and> last out2 = InternalConnLost)"
      by simp
    from False a have no: "InternalConnLost \<notin> set out1" by simp
    then have "count_list out1 InternalConnLost = 0"
      by (simp add: count_list_0_iff)
    moreover from t l False "3.prems" have "out = out1 @ out2" and "returned = ret2"
      by auto
    ultimately show ?thesis
      using ih no by (auto simp: last_append)
  qed
qed auto

lemma keepalive_loop_no_second_ping:
  "keepalive_loop c pingSent es = (c', out, returned) \<Longrightarrow>
   \<not> list_ex is_PingrespArrived es \<Longrightarrow>
   (pingOutstanding c \<noteq> 0 \<longrightarrow> filter is_Pingreq out = [])
   \<and> length (filter is_Pingreq out) \<le> 1"
proof (induction c pingSent es arbitrary: c' out returned rule: keepalive_loop.induct)
  case (3 c pingSent rd es)
  obtain c1 ps1 out1 ret1 where t: "keepalive_tick c pingSent rd = (c1, ps1, out1, ret1)"
    by (metis prod_cases4)
  note a = keepalive_tick_actions [OF t]
  show ?case
  proof (cases ret1)
    case True
    with t "3.prems" a show ?thesis by auto
  next
    case False
    obtain c2 out2 ret2 where l: "keepalive_loop c1 ps1 es = (c2, out2, ret2)"
      by (metis prod_cases3)
    from "3.prems" have "\<not> list_ex is_PingrespArrived es"
      by simp
    from "3.IH" [OF t [symmetric] refl refl _ l this] False
    have ih: "(pingOutstanding c1 \<noteq> 0 \<longrightarrow> filter is_Pingreq out2 = [])
        \<and> length (filter is_Pingreq out2) \<le> 1"
      by simp
    from t l False "3.prems" have "out = out1 @ out2"
      by auto
    then show ?thesis
      using ih a(4,5,6) by (cases "filter is_Pingreq out1 = []") auto
  qed
qed auto

lemmas keepalive_run_defs =
  keepalive_def keepalive_tick_eq tick_at_def reads_at_def Second_def zero_Time_def
  wrap_int64_def time_Since_def maxDuration_def minDuration_def

text \<open>
  The product with \<open>time.Second\<close> wraps in \<open>int64\<close>: a keepalive of 9223372037 seconds
  gives a negative interval, and the first tick already finds the connection idle for
  that long and sends a PINGREQ.
\<close>

lemma keepalive_tick_wrapped_interval:
  "wrap_int64 (9223372037 * Second) = - 9223372036709551616"
  "keepalive_tick \<lparr>KeepAlive = 9223372037, PingTimeout = 10 * Second, lastSent = 0,
                    lastReceived = 0, pingOutstanding = 0\<rparr> zero_Time (reads_at (5 * Second))
   = (\<lparr>KeepAlive = 9223372037, PingTimeout = 10 * Second, lastSent = 5 * Second,
       lastReceived = 0, pingOutstanding = 1\<rparr>, 5 * Second, [Pingreq False], False)"
  by (simp_all add: keepalive_run_defs)

text \<open>
  C7 (as the code has it). A tick that writes a PINGREQ leaves the probe-outstanding flag
  set and stamps the send time; a tick that finds the flag set writes no PINGREQ, so a
  run in which no PINGRESP arrives has at most one PINGREQ, and none if the flag was set
  from the start. When a tick finds the flag set and at least the probe-response timeout
  has passed since the send time, it calls \<open>internalConnLost\<close> and the loop returns at
  once. In every run \<open>internalConnLost\<close> is called at most once, and when it is called it
  is the last action and the loop has returned.
\<close>

theorem keepalive_probe_and_timeout:
  "(keepalive_tick c pingSent rd = (c1, pingSent1, out1, returned1)
      \<and> filter is_Pingreq out1 \<noteq> [] \<longrightarrow>
      pingOutstanding c1 = 1 \<and> pingSent1 = clock_pingSent rd)
   \<and> (keepalive_tick c pingSent rd = (c1, pingSent1, out1, returned1)
      \<and> pingOutstanding c \<noteq> 0 \<longrightarrow>
      filter is_Pingreq out1 = [])
   \<and> (keepalive_loop c pingSent es = (c2, out2, returned2)
      \<and> \<not> list_ex is_PingrespArrived es \<longrightarrow>
      length (filter is_Pingreq out2) \<le> 1
      \<and> (pingOutstanding c \<noteq> 0 \<longrightarrow> filter is_Pingreq out2 = []))
   \<and> (pingOutstanding c > 0
        \<and> time_Since (clock_since_pingSent rd) pingSent \<ge> PingTimeout c \<longrightarrow>
      keepalive_tick c pingSent rd = (c, pingSent, [InternalConnLost], True)
      \<and> keepalive_loop c pingSent (Tick rd # es) = (c, [InternalConnLost], True))
   \<and> (keepalive_loop c pingSent es = (c2, out2, returned2) \<longrightarrow>
      count_list out2 InternalConnLost \<le> 1
      \<and> (InternalConnLost \<in> set out2 \<longrightarrow> returned2 \<and> last out2 = InternalConnLost))"
proof (intro conjI impI)
  assume a: "keepalive_tick c pingSent rd = (c1, pingSent1, out1, returned1)
      \<and> filter is_Pingreq out1 \<noteq> []"
  then show "pingOutstanding c1 = 1" and "pingSent1 = clock_pingSent rd"
    unfolding keepalive_tick_eq by (auto split: if_splits)
next
  assume "keepalive_tick c pingSent rd = (c1, pingSent1, out1, returned1)
      \<and> pingOutstanding c \<noteq> 0"
  then show "filter is_Pingreq out1 = []"
    unfolding keepalive_tick_eq by (auto split: if_splits)
next
  assume a: "keepalive_loop c pingSent es = (c2, out2, returned2)
      \<and> \<not> list_ex is_PingrespArrived es"
  then have "(pingOutstanding c \<noteq> 0 \<longrightarrow> filter is_Pingreq out2 = [])
      \<and> length (filter is_Pingreq out2) \<le> 1"
    using keepalive_loop_no_second_ping [of c pingSent es c2 out2 returned2] by blast
  then show "length (filter is_Pingreq out2) \<le> 1"
    and "pingOutstanding c \<noteq> 0 \<Longrightarrow> filter is_Pingreq out2 = []"
    by simp_all
next
  assume a: "pingOutstanding c > 0
      \<and> time_Since (clock_since_pingSent rd) pingSent \<ge> PingTimeout c"
  then show t: "keepalive_tick c pingSent rd = (c, pingSent, [InternalConnLost], True)"
    by (simp add: keepalive_tick_eq)
  then show "keepalive_loop c pingSent (Tick rd # es) = (c, [InternalConnLost], True)"
    by simp
next
  assume a: "keepalive_loop c pingSent es = (c2, out2, returned2)"
  then have r: "count_list out2 InternalConnLost \<le> 1
      \<and> (InternalConnLost \<in> set out2 \<longrightarrow> returned2 \<and> last out2 = InternalConnLost)"
    by (rule keepalive_loop_lost_once)
  then show "count_list out2 InternalConnLost \<le> 1" by simp
  from r show "InternalConnLost \<in> set out2 \<Longrightarrow> returned2"
    and "InternalConnLost \<in> set out2 \<Longrightarrow> last out2 = InternalConnLost"
    by simp_all
qed

theorem keepalive_probe_and_timeout_witness:
  "keepalive \<lparr>KeepAlive = 30, PingTimeout = 10 * Second, lastSent = 0, lastReceived = 0,
              pingOutstanding = 0\<rparr>
     [tick_at (30 * Second), tick_at (35 * Second), tick_at (40 * Second), tick_at (45 * Second)]
   = (\<lparr>KeepAlive = 30, PingTimeout = 10 * Second, lastSent = 30 * Second, lastReceived = 0,
       pingOutstanding = 1\<rparr>,
      [Pingreq False, InternalConnLost], True)
   \<and> keepalive_tick \<lparr>KeepAlive = 30, PingTimeout = 10 * Second, lastSent = 30 * Second,
          lastReceived = 0, pingOutstanding = 1\<rparr> (30 * Second) (reads_at (40 * Second))
   = (\<lparr>KeepAlive = 30, PingTimeout = 10 * Second, lastSent = 30 * Second, lastReceived = 0,
       pingOutstanding = 1\<rparr>, 30 * Second, [InternalConnLost], True)"
proof -
  let ?c0 = "\<lparr>KeepAlive = 30, PingTimeout = 10 * Second, lastSent = 0, lastReceived = 0,
              pingOutstanding = 0\<rparr>"
  let ?c1 = "\<lparr>KeepAlive = 30, PingTimeout = 10 * Second, lastSent = 30 * Second,
              lastReceived = 0, pingOutstanding = 1\<rparr>"
  let ?es = "[tick_at (30 * Second), tick_at (35 * Second), tick_at (40 * Second),
              tick_at (45 * Second)]"
  have first: "keepalive_tick ?c0 zero_Time (reads_at (30 * Second))
      = (?c1, 30 * Second, [Pingreq False], False)"
    by (simp add: keepalive_run_defs)
  have second: "keepalive_tick ?c1 (30 * Second) (reads_at (35 * Second))
      = (?c1, 30 * Second, [], False)"
    by (simp add: keepalive_run_defs)
  have run: "keepalive_loop ?c0 zero_Time ?es = (?c1, [Pingreq False, InternalConnLost], True)"
    by (simp add: keepalive_run_defs)
  have noresp: "\<not> list_ex is_PingrespArrived ?es"
    by (simp add: tick_at_def)
  have outstanding: "pingOutstanding ?c1 > 0"
    and elapsed: "time_Since (clock_since_pingSent (reads_at (40 * Second))) (30 * Second)
        \<ge> PingTimeout ?c1"
    by (simp_all add: reads_at_def Second_def time_Since_def maxDuration_def minDuration_def)
  note sent = keepalive_probe_and_timeout [where c = ?c0 and pingSent = zero_Time
      and rd = "reads_at (30 * Second)" and ?c1.0 = ?c1 and ?pingSent1.0 = "30 * Second"
      and ?out1.0 = "[Pingreq False]" and ?returned1.0 = False and es = ?es and ?c2.0 = ?c1
      and ?out2.0 = "[Pingreq False, InternalConnLost]" and ?returned2.0 = True]
  note waiting = keepalive_probe_and_timeout [where c = ?c1 and pingSent = "30 * Second"
      and rd = "reads_at (35 * Second)" and ?c1.0 = ?c1 and ?pingSent1.0 = "30 * Second"
      and ?out1.0 = "[]" and ?returned1.0 = False and es = "[]" and ?c2.0 = ?c1
      and ?out2.0 = "[]" and ?returned2.0 = False]
  note timeout = keepalive_probe_and_timeout [where c = ?c1 and pingSent = "30 * Second"
      and rd = "reads_at (40 * Second)" and es = "[]"]
  have "pingOutstanding ?c1 = 1"
    using sent first by simp
  have "filter is_Pingreq ([] :: action list) = []"
    using waiting second by simp
  have "length (filter is_Pingreq [Pingreq False, InternalConnLost]) \<le> 1"
    using sent run noresp by blast
  have "count_list [Pingreq False, InternalConnLost] InternalConnLost \<le> 1"
    using sent run by blast
  have "keepalive_tick ?c1 (30 * Second) (reads_at (40 * Second))
      = (?c1, 30 * Second, [InternalConnLost], True)"
    using timeout outstanding elapsed by blast
  with run show ?thesis
    by (simp add: keepalive_def)
qed

text \<open>
  C7 (as the spec has it) fails, because the timeout is looked at only at a tick. With a
  keepalive of 30 s and a probe-response timeout of 1 s, a PINGREQ goes out at the tick at
  30 s; the PINGRESP arrives at 33 s, after the timeout, and clears the flag before the
  tick at 35 s: that tick and the next find no probe outstanding, the connection is never
  declared lost and the loop goes on. And a stop signal after the PINGREQ ends the loop
  without a call of \<open>internalConnLost\<close>.
\<close>

theorem keepalive_late_pingresp_counterexample:
  "keepalive \<lparr>KeepAlive = 30, PingTimeout = 1 * Second, lastSent = 0, lastReceived = 0,
              pingOutstanding = 0\<rparr>
     [tick_at (30 * Second), PingrespArrived (33 * Second), Received (33 * Second),
      tick_at (35 * Second), tick_at (40 * Second)]
   = (\<lparr>KeepAlive = 30, PingTimeout = 1 * Second, lastSent = 30 * Second,
       lastReceived = 33 * Second, pingOutstanding = 0\<rparr>,
      [Pingreq False], False)
   \<and> keepalive \<lparr>KeepAlive = 30, PingTimeout = 1 * Second, lastSent = 0, lastReceived = 0,
              pingOutstanding = 0\<rparr>
     [tick_at (30 * Second), Stop]
   = (\<lparr>KeepAlive = 30, PingTimeout = 1 * Second, lastSent = 30 * Second,
       lastReceived = 0, pingOutstanding = 1\<rparr>,
      [Pingreq False], True)"
  by (simp add: keepalive_run_defs)

end
